theory Spec2Isabelle
  imports Complex_Main
begin

section \<open>Masked arrays\<close>

text \<open>
  The notebooks hand \<^verbatim>\<open>numpy.ma.MaskedArray\<close> values of shape (bands, height, width) to
  the pixel-selection method. A masked array is its \<^verbatim>\<open>.data\<close> and its \<^verbatim>\<open>.mask\<close>, both
  nested lists band / row / column here. The mask follows numpy: \<open>True\<close> means
  \<^emph>\<open>masked\<close>, that is, the cell is invalid.
\<close>

type_synonym 'a grid = "'a list list"

record 'a marray =
  data_arr :: "'a grid list"
  mask_arr :: "bool grid list"

text \<open>
  The cells of the notebook's arrays are floats: the decision band is the NDVI
  \<^verbatim>\<open>(B08-B04)/(B08+B04)\<close>, which is NaN where both bands are 0. A float is a number,
  taken from any linear order (the finite floats and the two infinities), or NaN.
  \<^verbatim>\<open>a > b\<close> on floats is the IEEE comparison that numpy applies cell by cell: the order
  of the numbers, and false as soon as one side is NaN. (\<^verbatim>\<open>-0.0\<close> and \<^verbatim>\<open>0.0\<close>, which
  compare equal, are one number here.)
\<close>

datatype 'a fval = Num 'a | NaN

fun fgt :: "'a::linorder fval \<Rightarrow> 'a fval \<Rightarrow> bool" where
  "fgt (Num a) (Num b) \<longleftrightarrow> b < a"
| "fgt a b \<longleftrightarrow> False"

text \<open>\<^verbatim>\<open>a <= b\<close> on floats: the order of the numbers, false as soon as one side is NaN.\<close>

fun fle :: "'a::linorder fval \<Rightarrow> 'a fval \<Rightarrow> bool" where
  "fle (Num a) (Num b) \<longleftrightarrow> a \<le> b"
| "fle a b \<longleftrightarrow> False"

text \<open>Python exceptions that the modelled code raises or lets through.\<close>

datatype exn =
    TileOutsideBounds
  | HTTPError nat
  | IndexError
  | ValueError
  | OtherError string

text \<open>Elementwise combination of three equally long lists, and of three arrays.\<close>

definition map3 :: "('a \<Rightarrow> 'b \<Rightarrow> 'c \<Rightarrow> 'd) \<Rightarrow> 'a list \<Rightarrow> 'b list \<Rightarrow> 'c list \<Rightarrow> 'd list" where
  "map3 f xs ys zs = map (\<lambda>(x, y, z). f x y z) (zip xs (zip ys zs))"

text \<open>\<^verbatim>\<open>numpy.where(cond, x, y)\<close> on three arrays of one shape.\<close>

definition np_where :: "bool grid list \<Rightarrow> 'a grid list \<Rightarrow> 'a grid list \<Rightarrow> 'a grid list" where
  "np_where c x y = map3 (map3 (map3 (\<lambda>cv xv yv. if cv then xv else yv))) c x y"

text \<open>The shape of an array: the number of bands, and the row lengths of each band.\<close>

definition shape :: "'a grid list \<Rightarrow> nat list list" where
  "shape x = map (map length) x"

text \<open>
  An array of \<open>nb\<close> bands of \<open>h\<close> rows of \<open>w\<close> cells; a tile is a masked array whose data and
  mask both have that shape.
\<close>

definition dims3 :: "nat \<Rightarrow> nat \<Rightarrow> nat \<Rightarrow> 'a grid list \<Rightarrow> bool" where
  "dims3 nb h w x \<longleftrightarrow>
     length x = nb \<and> list_all (\<lambda>g. length g = h \<and> list_all (\<lambda>row. length row = w) g) x"

definition tile_shape :: "nat \<Rightarrow> nat \<Rightarrow> nat \<Rightarrow> 'a marray \<Rightarrow> bool" where
  "tile_shape nb h w a \<longleftrightarrow> dims3 nb h w (data_arr a) \<and> dims3 nb h w (mask_arr a)"

text \<open>
  A tile whose mask is the same in every band: validity is a property of the pixel, as
  in the data model of the specification (one 2-D mask per tile).
\<close>

definition pixel_mask :: "'a marray \<Rightarrow> bool" where
  "pixel_mask a \<longleftrightarrow> list_all (\<lambda>g. g = hd (mask_arr a)) (mask_arr a)"

definition all_masked :: "bool grid list \<Rightarrow> bool" where
  "all_masked m \<longleftrightarrow> list_all (list_all (list_all (\<lambda>v. v))) m"

text \<open>The number of valid (unmasked) cells of a mask.\<close>

definition count_valid :: "bool grid list \<Rightarrow> nat" where
  "count_valid m = length (filter Not (concat (concat m)))"

section \<open>The custom pixel selection \<^verbatim>\<open>CustomFourthBandH\<close>\<close>

text \<open>
  \<^verbatim>\<open>
  class CustomFourthBandH(MosaicMethodBase):
      @property
      def data(self):
          if self.mosaic is not None:
              return self.mosaic[:-1].copy()
          return None

      def feed(self, array):
          if self.mosaic is None:
              self.mosaic = array
              return
          pidex = (
              numpy.bitwise_and(array.data[-1] > self.mosaic.data[-1], ~array.mask)
              | self.mosaic.mask
          )
          mask = numpy.where(pidex, array.mask, self.mosaic.mask)
          self.mosaic = numpy.ma.where(pidex, array, self.mosaic)
          self.mosaic.mask = mask
  \<close>
  The object's state is \<^verbatim>\<open>self.mosaic\<close>, \<^verbatim>\<open>None\<close> until the first feed.
\<close>

record 'a CustomFourthBandH =
  mosaic :: "'a marray option"

definition new_CustomFourthBandH :: "'a CustomFourthBandH" where
  "new_CustomFourthBandH = \<lparr>mosaic = None\<rparr>"

text \<open>
  \<^verbatim>\<open>array.data[-1] > self.mosaic.data[-1]\<close> compares the last bands cell by cell with the
  comparison of floats, on the data whatever the masks; numpy broadcasts that 2-D result
  against every band of the 3-D masks.
\<close>

definition pidex :: "'a::linorder fval marray \<Rightarrow> 'a fval marray \<Rightarrow> bool grid list" where
  "pidex array mos =
     (let gt = map2 (map2 fgt) (last (data_arr array)) (last (data_arr mos))
      in map2 (\<lambda>am mm. map3 (map3 (\<lambda>g a m. (g \<and> \<not> a) \<or> m)) gt am mm)
           (mask_arr array) (mask_arr mos))"

text \<open>
  \<^verbatim>\<open>feed\<close>. Indexing the last band of an array without bands raises \<^verbatim>\<open>IndexError\<close>;
  operands of different shapes raise \<^verbatim>\<open>ValueError\<close> (numpy's stretching of axes of
  length one is left out: every tile of one mosaic request has the shape of the
  requested tile). In numpy the mask of a masked array has the shape of its data; a
  record that breaks this is treated as a shape error too.
\<close>

definition feed ::
  "'a::linorder fval CustomFourthBandH \<Rightarrow> 'a fval marray \<Rightarrow> exn + 'a fval CustomFourthBandH" where
  "feed self array =
     (case mosaic self of
        None \<Rightarrow> Inr (self\<lparr>mosaic := Some array\<rparr>)
      | Some mos \<Rightarrow>
          if data_arr array = [] \<or> data_arr mos = [] then Inl IndexError
          else if shape (data_arr array) \<noteq> shape (data_arr mos)
                  \<or> shape (mask_arr array) \<noteq> shape (data_arr array)
                  \<or> shape (mask_arr mos) \<noteq> shape (data_arr mos) then Inl ValueError
          else
            let p = pidex array mos;
                m = np_where p (mask_arr array) (mask_arr mos);
                d = np_where p (data_arr array) (data_arr mos)
            in Inr (self\<lparr>mosaic := Some \<lparr>data_arr = d, mask_arr = m\<rparr>\<rparr>))"

text \<open>The property \<^verbatim>\<open>data\<close>: the mosaic without its last band, or \<^verbatim>\<open>None\<close>.\<close>

definition data :: "'a CustomFourthBandH \<Rightarrow> 'a marray option" where
  "data self =
     (case mosaic self of
        Some mos \<Rightarrow> Some \<lparr>data_arr = butlast (data_arr mos), mask_arr = butlast (mask_arr mos)\<rparr>
      | None \<Rightarrow> None)"

text \<open>Feeding a sequence of tiles, one call after the other; an exception ends it.\<close>

fun feed_all ::
  "'a::linorder fval CustomFourthBandH \<Rightarrow> 'a fval marray list \<Rightarrow> exn + 'a fval CustomFourthBandH" where
  "feed_all self [] = Inr self"
| "feed_all self (t # ts) =
     (case feed self t of Inl e \<Rightarrow> Inl e | Inr self' \<Rightarrow> feed_all self' ts)"

text \<open>
  The cell-level reading of one \<^verbatim>\<open>feed\<close> on a selector that holds a mosaic: \<open>replaces\<close>
  is the value of \<^verbatim>\<open>pidex\<close> at a cell, \<open>merged\<close> the new mosaic.
\<close>

definition replaces ::
  "'a::linorder fval marray \<Rightarrow> 'a fval marray \<Rightarrow> nat \<Rightarrow> nat \<Rightarrow> nat \<Rightarrow> bool" where
  "replaces array mos b r q \<longleftrightarrow>
     (fgt (last (data_arr array) ! r ! q) (last (data_arr mos) ! r ! q)
        \<and> \<not> mask_arr array ! b ! r ! q)
       \<or> mask_arr mos ! b ! r ! q"

definition merged :: "'a::linorder fval marray \<Rightarrow> 'a fval marray \<Rightarrow> 'a fval marray" where
  "merged array mos =
     \<lparr>data_arr = np_where (pidex array mos) (data_arr array) (data_arr mos),
      mask_arr = np_where (pidex array mos) (mask_arr array) (mask_arr mos)\<rparr>"

text \<open>
  Reading a tile at a pixel: valid when no band masks it, and its decision value, the
  value of the last band.
\<close>

definition valid_at :: "'a marray \<Rightarrow> nat \<Rightarrow> nat \<Rightarrow> bool" where
  "valid_at a r q \<longleftrightarrow> list_all (\<lambda>g. \<not> g ! r ! q) (mask_arr a)"

definition decision :: "'a marray \<Rightarrow> nat \<Rightarrow> nat \<Rightarrow> 'a" where
  "decision a r q = last (data_arr a) ! r ! q"

text \<open>
  The rule of the Highest policy in the words of the specification: tile \<open>k\<close> of the fed
  sequence is valid at the pixel, its decision value is maximal among the tiles valid
  there (the decision value of each of them is a number, at most that of \<open>k\<close>), and every
  valid tile fed before it has a smaller one.
\<close>

definition first_highest :: "'a::linorder fval marray list \<Rightarrow> nat \<Rightarrow> nat \<Rightarrow> nat \<Rightarrow> bool" where
  "first_highest ts r q k \<longleftrightarrow>
     k < length ts \<and> valid_at (ts ! k) r q
     \<and> list_all (\<lambda>j. valid_at (ts ! j) r q \<longrightarrow> fle (decision (ts ! j) r q) (decision (ts ! k) r q))
          [0..<length ts]
     \<and> list_all (\<lambda>j. valid_at (ts ! j) r q \<longrightarrow> fgt (decision (ts ! k) r q) (decision (ts ! j) r q))
          [0..<k]"

text \<open>What a selector shows of its accumulator: the valid cells and their number.\<close>

definition cell_valid :: "'a CustomFourthBandH \<Rightarrow> nat \<Rightarrow> nat \<Rightarrow> nat \<Rightarrow> bool" where
  "cell_valid self b r q \<longleftrightarrow>
     (case mosaic self of
        None \<Rightarrow> False
      | Some mos \<Rightarrow>
          b < length (mask_arr mos) \<and> r < length (mask_arr mos ! b)
          \<and> q < length (mask_arr mos ! b ! r) \<and> \<not> mask_arr mos ! b ! r ! q)"

definition valid_cells :: "'a CustomFourthBandH \<Rightarrow> nat" where
  "valid_cells self = (case mosaic self of None \<Rightarrow> 0 | Some mos \<Rightarrow> count_valid (mask_arr mos))"

text \<open>
  The state of the selector during one request: no mosaic yet, or a mosaic of the shape
  of the request's tiles.
\<close>

definition selector_shape :: "nat \<Rightarrow> nat \<Rightarrow> nat \<Rightarrow> 'a CustomFourthBandH \<Rightarrow> bool" where
  "selector_shape nb h w self \<longleftrightarrow>
     (case mosaic self of None \<Rightarrow> True | Some mos \<Rightarrow> tile_shape nb h w mos)"

text \<open>
  The invariant of the mosaic at one pixel after feeding \<open>ts\<close>: no tile was valid there
  and the mosaic is invalid, or the mosaic holds the pixel of the first tile with the
  highest decision value.
\<close>

definition pixel_inv ::
  "'a::linorder fval marray list \<Rightarrow> 'a fval marray \<Rightarrow> nat \<Rightarrow> nat \<Rightarrow> nat \<Rightarrow> bool" where
  "pixel_inv ts m nb r q \<longleftrightarrow>
     (\<not> valid_at m r q \<and> (\<forall>j<length ts. \<not> valid_at (ts ! j) r q))
     \<or> (\<exists>k. first_highest ts r q k \<and> valid_at m r q
            \<and> decision m r q = decision (ts ! k) r q
            \<and> (\<forall>b<nb. data_arr m ! b ! r ! q = data_arr (ts ! k) ! b ! r ! q))"

section \<open>The tile handlers of the demo servers\<close>

text \<open>
  \<^verbatim>\<open>
  def _get_tile(self, tms, z, x, y):              # Using-tms.ipynb
      try:
          with Reader(self.url, tms=morecantile.tms.get(tms)) as cog:
              img = cog.tile(x, y, z, indexes=(1, 2, 3))
      except TileOutsideBounds:
          raise web.HTTPError(404)
      prof = img_profiles.get("PNG", {})
      return img.render(img_format="PNG", **prof)

  def _get_tile(self, z, x, y):                   # Using-nonEarth-dataset.ipynb
      try:
          with Reader(self.url, tms=europa_tms) as src:
              data = src.tile(x, y, z)
      except TileOutsideBounds:
          raise web.HTTPError(404)
      image = data.post_process(in_range=((0, 0.5),))
      prof = img_profiles.get("PNG", {})
      return image.render(img_format="PNG", **prof)

  def get(self, tms, z, x, y):
      self.set_header(...)                        # four headers
      res = yield self._get_tile(tms, int(z), int(x), int(y))
      self.write(res)
  \<close>
  The reader, the post-processing and the PNG encoder belong to the library and are
  parameters: \<open>read\<close> is the outcome of the \<^verbatim>\<open>with\<close> block (an image or the exception it
  raised), \<open>render\<close> and \<open>post_process\<close> may raise as well. An exception other than
  \<^verbatim>\<open>TileOutsideBounds\<close> is not caught.
\<close>

definition get_tile_tms ::
  "(string \<Rightarrow> nat \<Rightarrow> nat \<Rightarrow> nat \<Rightarrow> exn + 'img) \<Rightarrow> ('img \<Rightarrow> exn + 'png) \<Rightarrow>
     string \<Rightarrow> nat \<Rightarrow> nat \<Rightarrow> nat \<Rightarrow> exn + 'png" where
  "get_tile_tms read render tms z x y =
     (case read tms x y z of
        Inl TileOutsideBounds \<Rightarrow> Inl (HTTPError 404)
      | Inl e \<Rightarrow> Inl e
      | Inr img \<Rightarrow> render img)"

definition get_tile_europa ::
  "(nat \<Rightarrow> nat \<Rightarrow> nat \<Rightarrow> exn + 'img) \<Rightarrow> ('img \<Rightarrow> exn + 'img) \<Rightarrow> ('img \<Rightarrow> exn + 'png) \<Rightarrow>
     nat \<Rightarrow> nat \<Rightarrow> nat \<Rightarrow> exn + 'png" where
  "get_tile_europa read post_process render z x y =
     (case read x y z of
        Inl TileOutsideBounds \<Rightarrow> Inl (HTTPError 404)
      | Inl e \<Rightarrow> Inl e
      | Inr img \<Rightarrow>
          (case post_process img of
             Inl e \<Rightarrow> Inl e
           | Inr processed \<Rightarrow> render processed))"

text \<open>
  The response of \<^verbatim>\<open>get\<close>: the status code, the headers the handler set and what it
  passed to \<^verbatim>\<open>self.write\<close>. Tornado answers a raised \<^verbatim>\<open>HTTPError(n)\<close> with status \<open>n\<close> and
  any other exception with status 500; in both cases \<^verbatim>\<open>self.write(res)\<close> is not reached.
\<close>

record 'png response =
  status :: nat
  headers :: "(string \<times> string) list"
  written :: "'png option"

definition tile_headers :: "(string \<times> string) list" where
  "tile_headers =
     [(''Access-Control-Allow-Origin'', ''*''),
      (''Access-Control-Allow-Methods'', ''GET''),
      (''Content-Type'', ''image/png''),
      (''Cache-Control'', ''no-store, no-cache, must-revalidate'')]"

definition respond :: "exn + 'png \<Rightarrow> 'png response" where
  "respond res =
     (case res of
        Inr png \<Rightarrow> \<lparr>status = 200, headers = tile_headers, written = Some png\<rparr>
      | Inl (HTTPError n) \<Rightarrow> \<lparr>status = n, headers = tile_headers, written = None\<rparr>
      | Inl e \<Rightarrow> \<lparr>status = 500, headers = tile_headers, written = None\<rparr>)"

definition get_tms ::
  "(string \<Rightarrow> nat \<Rightarrow> nat \<Rightarrow> nat \<Rightarrow> exn + 'img) \<Rightarrow> ('img \<Rightarrow> exn + 'png) \<Rightarrow>
     string \<Rightarrow> nat \<Rightarrow> nat \<Rightarrow> nat \<Rightarrow> 'png response" where
  "get_tms read render tms z x y = respond (get_tile_tms read render tms z x y)"

definition get_europa ::
  "(nat \<Rightarrow> nat \<Rightarrow> nat \<Rightarrow> exn + 'img) \<Rightarrow> ('img \<Rightarrow> exn + 'img) \<Rightarrow> ('img \<Rightarrow> exn + 'png) \<Rightarrow>
     nat \<Rightarrow> nat \<Rightarrow> nat \<Rightarrow> 'png response" where
  "get_europa read post_process render z x y =
     respond (get_tile_europa read post_process render z x y)"

section \<open>The compositing engine of the specification\<close>

text \<open>
  The notebooks call \<^verbatim>\<open>rio_tiler.mosaic.mosaic_reader\<close> and the methods of
  \<^verbatim>\<open>rio_tiler.mosaic.methods.defaults\<close>, and \<^verbatim>\<open>CustomFourthBandH\<close> inherits from
  \<^verbatim>\<open>MosaicMethodBase\<close>; none of that code is among the sources. The definitions of this
  section follow the specification instead: its data model (section 3), the table of
  policies and the selector contract (section 4.1) and the algorithm of the
  orchestration (section 4.2).
\<close>

text \<open>
  Modelled from the spec: the tile type (ImageTile in the specification,
  \<^verbatim>\<open>rio_tiler.models.ImageData\<close> in the notebooks), whose code is missing. Bands are 2-D
  arrays of one height and width; the mask is one 2-D grid with \<open>True\<close> for a valid
  pixel. The georeference (crs, bounds) is the same for every tile of a request and
  plays no part in compositing; it is left out.
\<close>

record image_tile =
  tile_bands :: "real grid list"
  tile_mask :: "bool grid"

text \<open>
  Modelled from the spec: the built-in pixel-selection methods (those of
  \<^verbatim>\<open>rio_tiler.mosaic.methods.defaults\<close>), whose code is missing, by the table of policies
  of section 4.1.
\<close>

datatype policy = First | Highest | Lowest | Mean | Median | Stdev | Count

text \<open>
  Modelled from the spec: the accumulator of a built-in selector at one pixel. It is
  \<open>Unseen\<close> while no tile was valid there; First, Highest and Lowest keep the band values
  of one tile; Mean, Stdev and Count keep the count, the per-band sum and the per-band
  sum of squares of the valid contributions; Median buffers every valid contribution.
\<close>

datatype pacc =
    Unseen
  | Kept "real list"
  | Moments nat "real list" "real list"
  | Buffer "real list list"

text \<open>
  Modelled from the spec: the comparison band of Highest and Lowest, by default the last
  band of the pixel.
\<close>

definition decision_value :: "real list \<Rightarrow> real" where
  "decision_value vs = (if vs = [] then 0 else last vs)"

text \<open>
  Modelled from the spec: First keeps the value of the first tile valid at the pixel and
  never overwrites it.
\<close>

fun keep_first :: "pacc \<Rightarrow> real list \<Rightarrow> pacc" where
  "keep_first Unseen vs = Kept vs"
| "keep_first a vs = a"

text \<open>
  Modelled from the spec: Highest keeps the maximum of the comparison band among the
  valid tiles, ties broken by first-fed.
\<close>

fun keep_highest :: "pacc \<Rightarrow> real list \<Rightarrow> pacc" where
  "keep_highest Unseen vs = Kept vs"
| "keep_highest (Kept k) vs = (if decision_value k < decision_value vs then Kept vs else Kept k)"
| "keep_highest a vs = a"

text \<open>
  Modelled from the spec: Lowest, symmetric to Highest with the minimum of the
  comparison band.
\<close>

fun keep_lowest :: "pacc \<Rightarrow> real list \<Rightarrow> pacc" where
  "keep_lowest Unseen vs = Kept vs"
| "keep_lowest (Kept k) vs = (if decision_value vs < decision_value k then Kept vs else Kept k)"
| "keep_lowest a vs = a"

text \<open>
  Modelled from the spec: the running count, sum and sum of squares of Mean, Stdev and
  Count.
\<close>

fun add_moments :: "pacc \<Rightarrow> real list \<Rightarrow> pacc" where
  "add_moments Unseen vs = Moments 1 vs (map (\<lambda>v. v * v) vs)"
| "add_moments (Moments n sm sq) vs =
     Moments (Suc n) (map2 (+) sm vs) (map2 (+) sq (map (\<lambda>v. v * v) vs))"
| "add_moments a vs = a"

text \<open>Modelled from the spec: the buffer of valid contributions of Median.\<close>

fun push_buffer :: "pacc \<Rightarrow> real list \<Rightarrow> pacc" where
  "push_buffer Unseen vs = Buffer [vs]"
| "push_buffer (Buffer st) vs = Buffer (st @ [vs])"
| "push_buffer a vs = a"

text \<open>
  Modelled from the spec: one contribution to one pixel. The policies work on each
  pixel independently, and a pixel that the tile does not cover contributes nothing.
\<close>

definition step :: "policy \<Rightarrow> pacc \<Rightarrow> bool \<Rightarrow> real list \<Rightarrow> pacc" where
  "step p a v vs =
     (if \<not> v then a
      else case p of
             First \<Rightarrow> keep_first a vs
           | Highest \<Rightarrow> keep_highest a vs
           | Lowest \<Rightarrow> keep_lowest a vs
           | Mean \<Rightarrow> add_moments a vs
           | Median \<Rightarrow> push_buffer a vs
           | Stdev \<Rightarrow> add_moments a vs
           | Count \<Rightarrow> add_moments a vs)"

text \<open>Modelled from the spec: the band values of a tile at one pixel.\<close>

definition pixel :: "image_tile \<Rightarrow> nat \<Rightarrow> nat \<Rightarrow> real list" where
  "pixel t r q = map (\<lambda>g. g ! r ! q) (tile_bands t)"

text \<open>
  Modelled from the spec: the state of a built-in PixelSelector, created fresh for one
  request: its policy, the number of bands and one accumulator for each pixel of the
  request's tile grid (the tile dimensions are a constant of the request).
\<close>

record builtin =
  pol :: policy
  nbands :: nat
  acc :: "pacc grid"

text \<open>
  Modelled from the spec: the fresh state that the selector factory returns, no pixel
  of the grid seen.
\<close>

definition new_builtin :: "policy \<Rightarrow> nat \<Rightarrow> nat \<Rightarrow> nat \<Rightarrow> builtin" where
  "new_builtin p nb h w = \<lparr>pol = p, nbands = nb, acc = replicate h (replicate w Unseen)\<rparr>"

text \<open>
  Modelled from the spec: \<^verbatim>\<open>feed\<close> of a built-in selector. It does not check the
  shape of the tile: that all tiles of a request have the shape of the grid is the
  caller's obligation.
\<close>

definition feed_builtin :: "builtin \<Rightarrow> image_tile \<Rightarrow> builtin" where
  "feed_builtin s t =
     s\<lparr>acc :=
         map (\<lambda>r. map (\<lambda>q. step (pol s) (acc s ! r ! q) (tile_mask t ! r ! q) (pixel t r q))
                    [0..<length (acc s ! r)])
           [0..<length (acc s)]\<rparr>"

text \<open>
  Modelled from the spec: a pixel of the accumulator is valid once a valid contribution
  was seen there.
\<close>

fun seen :: "pacc \<Rightarrow> bool" where
  "seen Unseen = False"
| "seen a = True"

text \<open>Modelled from the spec: the median of the buffered values of one band.\<close>

definition median :: "real list \<Rightarrow> real" where
  "median xs =
     (let ys = sort xs; n = length ys
      in if n = 0 then 0
         else if odd n then ys ! (n div 2)
         else (ys ! (n div 2 - 1) + ys ! (n div 2)) / 2)"

text \<open>
  Modelled from the spec: the output values of a pixel, one for each band: the kept
  values, the arithmetic mean, the (biased) standard deviation from the sum and the sum
  of squares, the count, or the median. The square root is the one of the reals, which
  the code generator does not run: concrete results are computed by rewriting.
\<close>

fun pixel_value :: "policy \<Rightarrow> pacc \<Rightarrow> real list" where
  "pixel_value p Unseen = []"
| "pixel_value p (Kept k) = k"
| "pixel_value p (Moments n sm sq) =
     (case p of
        Mean \<Rightarrow> map (\<lambda>x. x / real n) sm
      | Stdev \<Rightarrow> map2 (\<lambda>x y. sqrt (y / real n - (x / real n) * (x / real n))) sm sq
      | Count \<Rightarrow> [real n]
      | _ \<Rightarrow> [])"
| "pixel_value p (Buffer st) = map median (transpose st)"

text \<open>
  Modelled from the spec: a pixel without a value is left at a sentinel value, here 0,
  and its mask bit is false.
\<close>

definition band_value :: "policy \<Rightarrow> pacc \<Rightarrow> nat \<Rightarrow> real" where
  "band_value p a b = (let vs = pixel_value p a in if b < length vs then vs ! b else 0)"

text \<open>
  Modelled from the spec: \<^verbatim>\<open>result\<close> of a built-in selector, callable at any time. Count
  is a single band of counts.
\<close>

definition result_builtin :: "builtin \<Rightarrow> image_tile" where
  "result_builtin s =
     \<lparr>tile_bands =
        map (\<lambda>b. map (map (\<lambda>a. band_value (pol s) a b)) (acc s))
          [0..<(if pol s = Count then 1 else nbands s)],
      tile_mask = map (map seen) (acc s)\<rparr>"

text \<open>
  Modelled from the spec: \<^verbatim>\<open>is_done\<close>. It is false unless overridden; First reports
  true once the mask is fully valid.
\<close>

definition is_done_builtin :: "builtin \<Rightarrow> bool" where
  "is_done_builtin s \<longleftrightarrow> pol s = First \<and> list_all (list_all seen) (acc s)"

text \<open>The number of valid pixels of the accumulator of a built-in selector.\<close>

definition count_seen :: "builtin \<Rightarrow> nat" where
  "count_seen s = length (filter seen (concat (acc s)))"

text \<open>
  Modelled from the spec: the capability set of a PixelSelector, \<^verbatim>\<open>feed\<close>, \<^verbatim>\<open>is_done\<close> and
  \<^verbatim>\<open>result\<close>, with the fresh state that the selector factory returns. A custom selector
  may raise in \<^verbatim>\<open>feed\<close>.
\<close>

record ('s, 't, 'r) selector =
  sel_init :: 's
  sel_feed :: "'s \<Rightarrow> 't \<Rightarrow> exn + 's"
  sel_is_done :: "'s \<Rightarrow> bool"
  sel_result :: "'s \<Rightarrow> 'r"

text \<open>Modelled from the spec: a built-in policy as a PixelSelector; its \<^verbatim>\<open>feed\<close> never raises.\<close>

definition builtin_selector ::
  "policy \<Rightarrow> nat \<Rightarrow> nat \<Rightarrow> nat \<Rightarrow> (builtin, image_tile, image_tile) selector" where
  "builtin_selector p nb h w =
     \<lparr>sel_init = new_builtin p nb h w,
      sel_feed = (\<lambda>s t. Inr (feed_builtin s t)),
      sel_is_done = is_done_builtin,
      sel_result = result_builtin\<rparr>"

text \<open>
  Modelled from the spec: \<^verbatim>\<open>is_done\<close> of \<^verbatim>\<open>CustomFourthBandH\<close>, inherited from the base class
  \<^verbatim>\<open>MosaicMethodBase\<close> whose code is missing: false unless overridden. \<^verbatim>\<open>feed\<close> and
  \<^verbatim>\<open>data\<close>, the \<^verbatim>\<open>result\<close> of this selector, are the notebook's.
\<close>

definition custom_selector ::
  "('a::linorder fval CustomFourthBandH, 'a fval marray, 'a fval marray option) selector" where
  "custom_selector =
     \<lparr>sel_init = new_CustomFourthBandH,
      sel_feed = feed,
      sel_is_done = (\<lambda>s. False),
      sel_result = data\<rparr>"

text \<open>
  Modelled from the spec: how the fetch of one asset resolves: a tile, the signal that
  the asset lies outside the tile bounds, or a failure.
\<close>

datatype 't fetched = Fetched 't | OutsideBounds | FetchError string

text \<open>Modelled from the spec: the fetch succeeded, that is, it gave a tile.\<close>

fun is_fetched :: "'t fetched \<Rightarrow> bool" where
  "is_fetched (Fetched t) = True"
| "is_fetched r = False"

text \<open>
  Modelled from the spec: the state of the orchestration: the selector, the assets
  used so far and the failures recorded for diagnostics.
\<close>

record ('a, 's) progress =
  sel_state :: 's
  used :: "'a list"
  failures :: "('a \<times> string) list"

text \<open>Modelled from the spec: MosaicResult, the composite and the assets used.\<close>

record ('a, 'r) mosaic_result =
  mosaic_res :: 'r
  assets_used :: "'a list"

text \<open>
  Modelled from the spec: step 1, the partition of the assets into consecutive batches
  of at most \<open>max_concurrency\<close> assets. The contract asks \<open>max_concurrency \<ge> 1\<close>; with
  0 there is no batch.
\<close>

function batches :: "nat \<Rightarrow> 'a list \<Rightarrow> 'a list list" where
  "batches n xs = (if n = 0 \<or> xs = [] then [] else take n xs # batches n (drop n xs))"
  by pat_completeness auto
termination
  by (relation "measure (\<lambda>(n, xs). length xs)") auto

text \<open>
  Modelled from the spec: step 2, the fetches of a batch run concurrently and the
  orchestrator waits for all of them; the join hands the outcomes back by position, so
  the order of completion does not show.
\<close>

definition dispatch :: "('a \<Rightarrow> 't fetched) \<Rightarrow> 'a list \<Rightarrow> ('a \<times> 't fetched) list" where
  "dispatch fetch_tile batch = map (\<lambda>a. (a, fetch_tile a)) batch"

text \<open>
  Modelled from the spec: step 3, the resolved assets of a batch in the order of the
  sequence: outside bounds is skipped, a failure is recorded and skipped, a tile is fed
  and its asset appended to the assets used. Only an exception of the selector ends
  the operation.
\<close>

fun feed_resolved ::
  "('s, 't, 'r) selector \<Rightarrow> ('a, 's) progress \<Rightarrow> ('a \<times> 't fetched) list \<Rightarrow> exn + ('a, 's) progress" where
  "feed_resolved sel st [] = Inr st"
| "feed_resolved sel st ((a, OutsideBounds) # rest) = feed_resolved sel st rest"
| "feed_resolved sel st ((a, FetchError msg) # rest) =
     feed_resolved sel (st\<lparr>failures := failures st @ [(a, msg)]\<rparr>) rest"
| "feed_resolved sel st ((a, Fetched t) # rest) =
     (case sel_feed sel (sel_state st) t of
        Inl e \<Rightarrow> Inl e
      | Inr s' \<Rightarrow> feed_resolved sel (st\<lparr>sel_state := s', used := used st @ [a]\<rparr>) rest)"

text \<open>
  Modelled from the spec: steps 4 and 5, after each batch \<^verbatim>\<open>is_done\<close> is checked, and the
  loop ends when it is true or the batches are exhausted.
\<close>

fun run_batches ::
  "('s, 't, 'r) selector \<Rightarrow> ('a \<Rightarrow> 't fetched) \<Rightarrow> ('a, 's) progress \<Rightarrow> 'a list list \<Rightarrow>
     exn + ('a, 's) progress" where
  "run_batches sel fetch_tile st [] = Inr st"
| "run_batches sel fetch_tile st (batch # rest) =
     (case feed_resolved sel st (dispatch fetch_tile batch) of
        Inl e \<Rightarrow> Inl e
      | Inr st' \<Rightarrow>
          if sel_is_done sel (sel_state st') then Inr st'
          else run_batches sel fetch_tile st' rest)"

text \<open>
  Modelled from the spec: \<^verbatim>\<open>composite\<close>, the orchestration of section 4.2 (the role of
  \<^verbatim>\<open>mosaic_reader\<close>): steps 1 to 5 from a fresh selector, then step 6, the result.
\<close>

definition composite ::
  "'a list \<Rightarrow> ('a \<Rightarrow> 't fetched) \<Rightarrow> ('s, 't, 'r) selector \<Rightarrow> nat \<Rightarrow> exn + ('a, 'r) mosaic_result" where
  "composite assets fetch_tile sel max_concurrency =
     (case run_batches sel fetch_tile \<lparr>sel_state = sel_init sel, used = [], failures = []\<rparr>
             (batches max_concurrency assets) of
        Inl e \<Rightarrow> Inl e
      | Inr st \<Rightarrow> Inr \<lparr>mosaic_res = sel_result sel (sel_state st), assets_used = used st\<rparr>)"

text \<open>Feeding a selector a sequence of tiles, one after the other.\<close>

fun feed_tiles :: "('s, 't, 'r) selector \<Rightarrow> 's \<Rightarrow> 't list \<Rightarrow> exn + 's" where
  "feed_tiles sel s [] = Inr s"
| "feed_tiles sel s (t # ts) =
     (case sel_feed sel s t of Inl e \<Rightarrow> Inl e | Inr s' \<Rightarrow> feed_tiles sel s' ts)"

text \<open>
  A selector that never reports done, whatever tiles it was fed since it was created
  (as the accumulating policies, and \<^verbatim>\<open>CustomFourthBandH\<close>).
\<close>

definition never_done :: "('s, 't, 'r) selector \<Rightarrow> bool" where
  "never_done sel \<longleftrightarrow>
     (\<forall>ts s. feed_tiles sel (sel_init sel) ts = Inr s \<longrightarrow> \<not> sel_is_done sel s)"

text \<open>The tiles of the assets of a list whose fetch gave a tile, in the order of the list.\<close>

fun tiles_of :: "('a \<Rightarrow> 't fetched) \<Rightarrow> 'a list \<Rightarrow> 't list" where
  "tiles_of fetch_tile [] = []"
| "tiles_of fetch_tile (a # rest) =
     (case fetch_tile a of
        Fetched t \<Rightarrow> t # tiles_of fetch_tile rest
      | _ \<Rightarrow> tiles_of fetch_tile rest)"

text \<open>A pixel of the accumulator of a built-in selector that lies in the grid and is valid.\<close>

definition seen_at :: "builtin \<Rightarrow> nat \<Rightarrow> nat \<Rightarrow> bool" where
  "seen_at s r q \<longleftrightarrow> r < length (acc s) \<and> q < length (acc s ! r) \<and> seen (acc s ! r ! q)"

text \<open>
  A 2-D grid of \<open>h\<close> rows of \<open>w\<close> cells, and a tile of the specification without a valid
  pixel.
\<close>

definition grid_shape :: "nat \<Rightarrow> nat \<Rightarrow> 'a grid \<Rightarrow> bool" where
  "grid_shape h w g \<longleftrightarrow> length g = h \<and> list_all (\<lambda>row. length row = w) g"

definition all_invalid :: "image_tile \<Rightarrow> bool" where
  "all_invalid t \<longleftrightarrow> list_all (list_all Not) (tile_mask t)"

text \<open>The failures that the orchestration records for a list of assets.\<close>

fun failures_of :: "('a \<Rightarrow> 't fetched) \<Rightarrow> 'a list \<Rightarrow> ('a \<times> string) list" where
  "failures_of fetch_tile [] = []"
| "failures_of fetch_tile (a # rest) =
     (case fetch_tile a of
        FetchError msg \<Rightarrow> (a, msg) # failures_of fetch_tile rest
      | _ \<Rightarrow> failures_of fetch_tile rest)"

text \<open>
  The values of band \<open>b\<close> at a pixel in the tiles of a sequence that are valid there, in
  the order of the sequence, and the accumulator that Mean holds for them.
\<close>

definition contributions :: "image_tile list \<Rightarrow> nat \<Rightarrow> nat \<Rightarrow> nat \<Rightarrow> real list" where
  "contributions ts b r q =
     map (\<lambda>t. tile_bands t ! b ! r ! q) (filter (\<lambda>t. tile_mask t ! r ! q) ts)"

definition mean_acc :: "image_tile list \<Rightarrow> nat \<Rightarrow> nat \<Rightarrow> nat \<Rightarrow> pacc" where
  "mean_acc ts nb r q =
     (if filter (\<lambda>t. tile_mask t ! r ! q) ts = [] then Unseen
      else Moments (length (filter (\<lambda>t. tile_mask t ! r ! q) ts))
             (map (\<lambda>b. sum_list (contributions ts b r q)) [0..<nb])
             (map (\<lambda>b. sum_list (map (\<lambda>v. v * v) (contributions ts b r q))) [0..<nb]))"

section \<open>Example inputs\<close>

text \<open>
  Tiles of two bands and one pixel: \<open>tB\<close> and \<open>tC\<close> tie on the decision band above
  \<open>tA\<close>, and \<open>tD\<close> is masked; \<open>tN\<close> is valid with the decision value NaN; \<open>tP\<close> is masked
  in its first band only.
\<close>

definition tA :: "int fval marray" where
  "tA = \<lparr>data_arr = [[[Num 1]], [[Num 5]]], mask_arr = [[[False]], [[False]]]\<rparr>"

definition tB :: "int fval marray" where
  "tB = \<lparr>data_arr = [[[Num 2]], [[Num 7]]], mask_arr = [[[False]], [[False]]]\<rparr>"

definition tC :: "int fval marray" where
  "tC = \<lparr>data_arr = [[[Num 3]], [[Num 7]]], mask_arr = [[[False]], [[False]]]\<rparr>"

definition tD :: "int fval marray" where
  "tD = \<lparr>data_arr = [[[Num 4]], [[Num 9]]], mask_arr = [[[True]], [[True]]]\<rparr>"

definition tN :: "int fval marray" where
  "tN = \<lparr>data_arr = [[[Num 0]], [[NaN]]], mask_arr = [[[False]], [[False]]]\<rparr>"

definition tP :: "int fval marray" where
  "tP = \<lparr>data_arr = [[[Num 6]], [[Num 9]]], mask_arr = [[[True]], [[False]]]\<rparr>"

text \<open>
  The scenario of the specification: three tiles of 4 x 4 pixels and one band, all 10,
  all 20, and one without a valid pixel, fetched for the assets A, B and C.
\<close>

definition tile10 :: image_tile where
  "tile10 = \<lparr>tile_bands = [replicate 4 (replicate 4 10)], tile_mask = replicate 4 (replicate 4 True)\<rparr>"

definition tile20 :: image_tile where
  "tile20 = \<lparr>tile_bands = [replicate 4 (replicate 4 20)], tile_mask = replicate 4 (replicate 4 True)\<rparr>"

definition tile_none :: image_tile where
  "tile_none = \<lparr>tile_bands = [replicate 4 (replicate 4 0)], tile_mask = replicate 4 (replicate 4 False)\<rparr>"

definition scenario_fetch :: "string \<Rightarrow> image_tile fetched" where
  "scenario_fetch a =
     (if a = ''A'' then Fetched tile10
      else if a = ''B'' then Fetched tile20
      else if a = ''C'' then Fetched tile_none
      else OutsideBounds)"

text \<open>
  Five assets of which the second and the fourth fail and the third lies outside the
  bounds; tiles of one pixel; and a reader, a post-processing and an encoder for the
  tile handlers.
\<close>

definition fetch5 :: "nat \<Rightarrow> int fval marray fetched" where
  "fetch5 a =
     (if a = 1 then Fetched tA
      else if a = 2 then FetchError ''timeout''
      else if a = 3 then OutsideBounds
      else if a = 4 then FetchError ''decode''
      else if a = 5 then Fetched tB
      else OutsideBounds)"

definition full1 :: image_tile where
  "full1 = \<lparr>tile_bands = [[[1]]], tile_mask = [[True]]\<rparr>"

definition none1 :: image_tile where
  "none1 = \<lparr>tile_bands = [[[0]]], tile_mask = [[False]]\<rparr>"

definition demo_read :: "string \<Rightarrow> nat \<Rightarrow> nat \<Rightarrow> nat \<Rightarrow> exn + nat" where
  "demo_read tms x y z = (if x = 0 \<and> y = 0 then Inr z else Inl TileOutsideBounds)"

definition demo_read_eu :: "nat \<Rightarrow> nat \<Rightarrow> nat \<Rightarrow> exn + nat" where
  "demo_read_eu x y z = (if x = 0 \<and> y = 0 then Inr z else Inl TileOutsideBounds)"

definition demo_post :: "nat \<Rightarrow> exn + nat" where
  "demo_post img = Inr (img + 1)"

definition demo_render :: "nat \<Rightarrow> exn + nat list" where
  "demo_render img = Inr [img]"

section \<open>Lemmas\<close>

lemma length_map3 [simp]:
  "length (map3 f xs ys zs) = min (length xs) (min (length ys) (length zs))"
  by (simp add: map3_def)

lemma nth_map3 [simp]:
  "i < length xs \<Longrightarrow> i < length ys \<Longrightarrow> i < length zs \<Longrightarrow>
     map3 f xs ys zs ! i = f (xs ! i) (ys ! i) (zs ! i)"
  by (simp add: map3_def)

subsection \<open>Shapes and cells\<close>

lemma dims3_iff:
  "dims3 nb h w x \<longleftrightarrow>
     length x = nb \<and> (\<forall>b<nb. length (x ! b) = h \<and> (\<forall>r<h. length (x ! b ! r) = w))"
  by (auto simp: dims3_def list_all_length)

lemma dims3_shape: "dims3 nb h w x \<Longrightarrow> shape x = replicate nb (replicate h w)"
  by (auto simp: dims3_iff shape_def list_eq_iff_nth_eq)

lemma dims3_eqI:
  "dims3 nb h w x \<Longrightarrow> dims3 nb h w y \<Longrightarrow>
   (\<And>b r q. b < nb \<Longrightarrow> r < h \<Longrightarrow> q < w \<Longrightarrow> x ! b ! r ! q = y ! b ! r ! q) \<Longrightarrow> x = y"
  by (simp add: dims3_iff list_eq_iff_nth_eq)

lemma dims3_np_where:
  "dims3 nb h w c \<Longrightarrow> dims3 nb h w x \<Longrightarrow> dims3 nb h w y \<Longrightarrow> dims3 nb h w (np_where c x y)"
  by (simp add: dims3_iff np_where_def)

lemma nth_np_where:
  "dims3 nb h w c \<Longrightarrow> dims3 nb h w x \<Longrightarrow> dims3 nb h w y \<Longrightarrow> b < nb \<Longrightarrow> r < h \<Longrightarrow> q < w \<Longrightarrow>
     np_where c x y ! b ! r ! q = (if c ! b ! r ! q then x ! b ! r ! q else y ! b ! r ! q)"
  by (simp add: dims3_iff np_where_def)

lemma dims3_last:
  "dims3 nb h w x \<Longrightarrow> 0 < nb \<Longrightarrow> length (last x) = h \<and> (\<forall>r<h. length (last x ! r) = w)"
  by (cases "x = []") (auto simp: dims3_iff last_conv_nth)

lemma dims3_pidex:
  "tile_shape nb h w array \<Longrightarrow> tile_shape nb h w mos \<Longrightarrow> 0 < nb \<Longrightarrow> dims3 nb h w (pidex array mos)"
  using dims3_last[of nb h w "data_arr array"] dims3_last[of nb h w "data_arr mos"]
  by (simp add: tile_shape_def dims3_iff pidex_def Let_def)

lemma nth_pidex:
  "tile_shape nb h w array \<Longrightarrow> tile_shape nb h w mos \<Longrightarrow> b < nb \<Longrightarrow> r < h \<Longrightarrow> q < w \<Longrightarrow>
     pidex array mos ! b ! r ! q = replaces array mos b r q"
  using dims3_last[of nb h w "data_arr array"] dims3_last[of nb h w "data_arr mos"]
  by (simp add: tile_shape_def dims3_iff pidex_def Let_def replaces_def)

subsection \<open>One call of feed\<close>

lemma feed_None: "mosaic self = None \<Longrightarrow> feed self array = Inr (self\<lparr>mosaic := Some array\<rparr>)"
  by (simp add: feed_def)

lemma feed_Some:
  assumes "tile_shape nb h w array" "tile_shape nb h w mos" "0 < nb" "mosaic self = Some mos"
  shows "feed self array = Inr (self\<lparr>mosaic := Some (merged array mos)\<rparr>)"
proof -
  have "data_arr array \<noteq> []" "data_arr mos \<noteq> []"
    using assms by (auto simp: tile_shape_def dims3_iff)
  moreover have "shape (data_arr array) = shape (data_arr mos)"
    "shape (mask_arr array) = shape (data_arr array)"
    "shape (mask_arr mos) = shape (data_arr mos)"
    using assms by (auto simp: tile_shape_def dest!: dims3_shape)
  ultimately show ?thesis
    using assms(4) by (simp add: feed_def merged_def Let_def)
qed

lemma tile_shape_merged:
  "tile_shape nb h w array \<Longrightarrow> tile_shape nb h w mos \<Longrightarrow> 0 < nb \<Longrightarrow>
     tile_shape nb h w (merged array mos)"
  using dims3_pidex[of nb h w array mos]
  by (simp add: tile_shape_def merged_def dims3_np_where)

lemma mask_merged:
  "tile_shape nb h w array \<Longrightarrow> tile_shape nb h w mos \<Longrightarrow> b < nb \<Longrightarrow> r < h \<Longrightarrow> q < w \<Longrightarrow>
   mask_arr (merged array mos) ! b ! r ! q =
     (if replaces array mos b r q then mask_arr array ! b ! r ! q else mask_arr mos ! b ! r ! q)"
  using dims3_pidex[of nb h w array mos] nth_pidex[of nb h w array mos b r q]
  by (simp add: tile_shape_def merged_def nth_np_where[of nb h w])

lemma data_merged:
  "tile_shape nb h w array \<Longrightarrow> tile_shape nb h w mos \<Longrightarrow> b < nb \<Longrightarrow> r < h \<Longrightarrow> q < w \<Longrightarrow>
   data_arr (merged array mos) ! b ! r ! q =
     (if replaces array mos b r q then data_arr array ! b ! r ! q else data_arr mos ! b ! r ! q)"
  using dims3_pidex[of nb h w array mos] nth_pidex[of nb h w array mos b r q]
  by (simp add: tile_shape_def merged_def nth_np_where[of nb h w])

lemma feed_all_append:
  "feed_all self (ts @ us) =
     (case feed_all self ts of Inl e \<Rightarrow> Inl e | Inr self' \<Rightarrow> feed_all self' us)"
  by (induction ts arbitrary: self) (auto split: sum.splits)

lemma feed_shape:
  assumes "0 < nb" "tile_shape nb h w t" "selector_shape nb h w self"
  shows "\<exists>self'. feed self t = Inr self' \<and> selector_shape nb h w self' \<and> mosaic self' \<noteq> None"
proof (cases "mosaic self")
  case None
  then show ?thesis using assms by (simp add: feed_None selector_shape_def)
next
  case (Some mos)
  then show ?thesis
    using assms feed_Some[of nb h w t mos self] tile_shape_merged[of nb h w t mos]
    by (simp add: selector_shape_def)
qed

lemma feed_all_shape:
  assumes "0 < nb" "\<forall>t\<in>set ts. tile_shape nb h w t" "selector_shape nb h w self"
  shows "\<exists>self'. feed_all self ts = Inr self' \<and> selector_shape nb h w self'
           \<and> (ts \<noteq> [] \<longrightarrow> mosaic self' \<noteq> None)"
  using assms(2,3)
proof (induction ts arbitrary: self rule: rev_induct)
  case Nil
  then show ?case by simp
next
  case (snoc t ts)
  then obtain s1 where s1: "feed_all self ts = Inr s1" "selector_shape nb h w s1" by fastforce
  from snoc.prems have "tile_shape nb h w t" by simp
  from feed_shape[OF assms(1) this s1(2)] s1(1) show ?case
    by (auto simp: feed_all_append)
qed

lemma new_shape: "selector_shape nb h w new_CustomFourthBandH"
  by (simp add: selector_shape_def new_CustomFourthBandH_def)

subsection \<open>The mosaic at one pixel\<close>

lemma fgt_not_fle: "fgt a b \<Longrightarrow> \<not> fle a b"
  by (cases a; cases b) auto

lemma fgt_imp_fle: "fgt a b \<Longrightarrow> fle b a"
  by (cases a; cases b) auto

lemma fle_fgt_trans: "fle a b \<Longrightarrow> fgt c b \<Longrightarrow> fgt c a"
  by (cases a; cases b; cases c) auto

lemma not_fgt_fle: "\<not> fgt a b \<Longrightarrow> a \<noteq> NaN \<Longrightarrow> b \<noteq> NaN \<Longrightarrow> fle a b"
  by (cases a; cases b) auto

lemma fle_refl: "a \<noteq> NaN \<Longrightarrow> fle a a"
  by (cases a) auto

lemma fle_number: "fle a b \<Longrightarrow> a \<noteq> NaN \<and> b \<noteq> NaN"
  by (cases a; cases b) auto

lemma first_highest_iff:
  "first_highest ts r q k \<longleftrightarrow>
     k < length ts \<and> valid_at (ts ! k) r q
     \<and> (\<forall>j<length ts. valid_at (ts ! j) r q \<longrightarrow> fle (decision (ts ! j) r q) (decision (ts ! k) r q))
     \<and> (\<forall>j<k. valid_at (ts ! j) r q \<longrightarrow> fgt (decision (ts ! k) r q) (decision (ts ! j) r q))"
  by (auto simp: first_highest_def list_all_iff)

lemma pixel_mask_nth:
  "tile_shape nb h w a \<Longrightarrow> pixel_mask a \<Longrightarrow> b < nb \<Longrightarrow> mask_arr a ! b = hd (mask_arr a)"
  by (auto simp: pixel_mask_def tile_shape_def dims3_iff list_all_length)

lemma valid_at_iff:
  assumes "tile_shape nb h w a" "pixel_mask a" "b < nb"
  shows "valid_at a r q \<longleftrightarrow> \<not> mask_arr a ! b ! r ! q"
proof -
  have len: "length (mask_arr a) = nb" using assms(1) by (simp add: tile_shape_def dims3_iff)
  have eq: "\<forall>c<nb. mask_arr a ! c ! r ! q = hd (mask_arr a) ! r ! q"
    using pixel_mask_nth[OF assms(1,2)] by simp
  have "valid_at a r q \<longleftrightarrow> (\<forall>c<nb. \<not> mask_arr a ! c ! r ! q)"
    by (simp add: valid_at_def list_all_length len)
  also have "\<dots> \<longleftrightarrow> \<not> mask_arr a ! b ! r ! q"
    using eq assms(3) by blast
  finally show ?thesis .
qed

lemma replaces_pixel:
  assumes "tile_shape nb h w t" "tile_shape nb h w m" "pixel_mask t" "pixel_mask m" "b < nb"
  shows "replaces t m b r q \<longleftrightarrow>
           (fgt (decision t r q) (decision m r q) \<and> valid_at t r q) \<or> \<not> valid_at m r q"
  using valid_at_iff[OF assms(1,3,5), of r q] valid_at_iff[OF assms(2,4,5), of r q]
  by (auto simp: replaces_def decision_def)

lemma pixel_mask_merged:
  assumes "tile_shape nb h w t" "tile_shape nb h w m" "pixel_mask t" "pixel_mask m" "0 < nb"
  shows "pixel_mask (merged t m)"
proof -
  let ?x = "merged t m"
  have sh: "tile_shape nb h w ?x" using assms by (simp add: tile_shape_merged)
  then have len: "length (mask_arr ?x) = nb"
    and rows: "\<And>b. b < nb \<Longrightarrow> length (mask_arr ?x ! b) = h"
    and cols: "\<And>b r. b < nb \<Longrightarrow> r < h \<Longrightarrow> length (mask_arr ?x ! b ! r) = w"
    by (simp_all add: tile_shape_def dims3_iff)
  have cell: "mask_arr ?x ! b ! r ! q = mask_arr ?x ! 0 ! r ! q"
    if "b < nb" "r < h" "q < w" for b r q
  proof -
    have "replaces t m b r q = replaces t m 0 r q"
      using replaces_pixel[OF assms(1-4) that(1)] replaces_pixel[OF assms(1-4) assms(5)] by simp
    moreover have "mask_arr t ! b = mask_arr t ! 0" "mask_arr m ! b = mask_arr m ! 0"
      using pixel_mask_nth[OF assms(1,3)] pixel_mask_nth[OF assms(2,4)] that(1) assms(5) by simp_all
    ultimately show ?thesis
      using mask_merged[OF assms(1,2) that] mask_merged[OF assms(1,2) assms(5) that(2,3)] by simp
  qed
  have hd0: "hd (mask_arr ?x) = mask_arr ?x ! 0"
    using len assms(5) by (cases "mask_arr (merged t m)") simp_all
  have band: "mask_arr ?x ! b = hd (mask_arr ?x)" if "b < nb" for b
    unfolding hd0
  proof (rule nth_equalityI)
    show "length (mask_arr ?x ! b) = length (mask_arr ?x ! 0)"
      using rows[OF that] rows[OF assms(5)] by simp
  next
    fix r assume "r < length (mask_arr ?x ! b)"
    then have r: "r < h" using rows[OF that] by simp
    show "mask_arr ?x ! b ! r = mask_arr ?x ! 0 ! r"
    proof (rule nth_equalityI)
      show "length (mask_arr ?x ! b ! r) = length (mask_arr ?x ! 0 ! r)"
        using cols[OF that r] cols[OF assms(5) r] by simp
    next
      fix q assume "q < length (mask_arr ?x ! b ! r)"
      then have "q < w" using cols[OF that r] by simp
      then show "mask_arr ?x ! b ! r ! q = mask_arr ?x ! 0 ! r ! q"
        by (rule cell[OF that r])
    qed
  qed
  show ?thesis
    unfolding pixel_mask_def list_all_length len using band by blast
qed

lemma valid_at_merged:
  assumes "tile_shape nb h w t" "tile_shape nb h w m" "pixel_mask t" "pixel_mask m" "0 < nb"
    "r < h" "q < w"
  shows "valid_at (merged t m) r q \<longleftrightarrow> valid_at m r q \<or> valid_at t r q"
proof -
  have vx: "valid_at (merged t m) r q \<longleftrightarrow> \<not> mask_arr (merged t m) ! 0 ! r ! q"
    by (rule valid_at_iff[OF tile_shape_merged[OF assms(1,2,5)] pixel_mask_merged[OF assms(1-5)] assms(5)])
  have vt: "valid_at t r q \<longleftrightarrow> \<not> mask_arr t ! 0 ! r ! q"
    by (rule valid_at_iff[OF assms(1,3,5)])
  have vm: "valid_at m r q \<longleftrightarrow> \<not> mask_arr m ! 0 ! r ! q"
    by (rule valid_at_iff[OF assms(2,4,5)])
  have mm: "mask_arr (merged t m) ! 0 ! r ! q =
      (if replaces t m 0 r q then mask_arr t ! 0 ! r ! q else mask_arr m ! 0 ! r ! q)"
    by (rule mask_merged[OF assms(1,2,5,6,7)])
  show ?thesis
    unfolding vx vt vm mm replaces_def by (cases "mask_arr m ! 0 ! r ! q") simp_all
qed

lemma data_merged_pixel:
  assumes "tile_shape nb h w t" "tile_shape nb h w m" "pixel_mask t" "pixel_mask m" "b < nb"
    "r < h" "q < w"
  shows "data_arr (merged t m) ! b ! r ! q =
           (if (fgt (decision t r q) (decision m r q) \<and> valid_at t r q) \<or> \<not> valid_at m r q
            then data_arr t ! b ! r ! q else data_arr m ! b ! r ! q)"
  using data_merged[OF assms(1,2,5,6,7)] replaces_pixel[OF assms(1-5), of r q] by simp

lemma decision_conv:
  "tile_shape nb h w a \<Longrightarrow> 0 < nb \<Longrightarrow> decision a r q = data_arr a ! (nb - 1) ! r ! q"
  by (cases "data_arr a = []") (auto simp: decision_def tile_shape_def dims3_iff last_conv_nth)

lemma decision_merged:
  assumes "tile_shape nb h w t" "tile_shape nb h w m" "pixel_mask t" "pixel_mask m" "0 < nb"
    "r < h" "q < w"
  shows "decision (merged t m) r q =
           (if (fgt (decision t r q) (decision m r q) \<and> valid_at t r q) \<or> \<not> valid_at m r q
            then decision t r q else decision m r q)"
proof -
  have b: "nb - 1 < nb" using assms(5) by simp
  show ?thesis
    using data_merged_pixel[OF assms(1-4) b assms(6,7)]
      decision_conv[OF assms(1,5), of r q] decision_conv[OF assms(2,5), of r q]
      decision_conv[OF tile_shape_merged[OF assms(1,2,5)] assms(5), of r q]
    by simp
qed

lemma first_highest_unique:
  assumes "first_highest ts r q k" "first_highest ts r q k'"
  shows "k = k'"
proof (rule ccontr)
  assume "k \<noteq> k'"
  then consider "k < k'" | "k' < k" by linarith
  then show False
  proof cases
    case 1
    then have "fgt (decision (ts ! k') r q) (decision (ts ! k) r q)"
      using assms by (simp add: first_highest_iff)
    moreover have "fle (decision (ts ! k') r q) (decision (ts ! k) r q)"
      using assms by (simp add: first_highest_iff)
    ultimately show False by (simp add: fgt_not_fle)
  next
    case 2
    then have "fgt (decision (ts ! k) r q) (decision (ts ! k') r q)"
      using assms by (simp add: first_highest_iff)
    moreover have "fle (decision (ts ! k) r q) (decision (ts ! k') r q)"
      using assms by (simp add: first_highest_iff)
    ultimately show False by (simp add: fgt_not_fle)
  qed
qed

lemma first_highest_number:
  assumes "first_highest ts r q k"
  shows "decision (ts ! k) r q \<noteq> NaN"
proof -
  from assms have "fle (decision (ts ! k) r q) (decision (ts ! k) r q)"
    by (simp add: first_highest_iff)
  then show ?thesis by (simp add: fle_number)
qed

lemma first_highest_single:
  "valid_at t r q \<Longrightarrow> decision t r q \<noteq> NaN \<Longrightarrow> first_highest [t] r q 0"
  by (simp add: first_highest_iff fle_refl)

lemma first_highest_new:
  assumes "valid_at t r q" and "decision t r q \<noteq> NaN"
    and "\<forall>j<length ts. valid_at (ts ! j) r q \<longrightarrow> fgt (decision t r q) (decision (ts ! j) r q)"
  shows "first_highest (ts @ [t]) r q (length ts)"
  unfolding first_highest_iff
proof (intro conjI allI impI)
  show "length ts < length (ts @ [t])" by simp
  show "valid_at ((ts @ [t]) ! length ts) r q" using assms(1) by simp
next
  fix j assume j: "j < length (ts @ [t])" and v: "valid_at ((ts @ [t]) ! j) r q"
  show "fle (decision ((ts @ [t]) ! j) r q) (decision ((ts @ [t]) ! length ts) r q)"
  proof (cases "j < length ts")
    case True
    then have "fgt (decision t r q) (decision (ts ! j) r q)"
      using assms(3) v by (simp add: nth_append)
    then have "fle (decision (ts ! j) r q) (decision t r q)" by (rule fgt_imp_fle)
    then show ?thesis using True by (simp add: nth_append)
  next
    case False
    then have "j = length ts" using j by simp
    then show ?thesis using assms(2) by (simp add: fle_refl)
  qed
next
  fix j assume j: "j < length ts" and v: "valid_at ((ts @ [t]) ! j) r q"
  then have "fgt (decision t r q) (decision (ts ! j) r q)"
    using assms(3) by (simp add: nth_append)
  then show "fgt (decision ((ts @ [t]) ! length ts) r q) (decision ((ts @ [t]) ! j) r q)"
    using j by (simp add: nth_append)
qed

lemma first_highest_keep:
  assumes "first_highest ts r q k"
    and "valid_at t r q \<longrightarrow> fle (decision t r q) (decision (ts ! k) r q)"
  shows "first_highest (ts @ [t]) r q k"
proof -
  from assms(1) have k: "k < length ts" and vk: "valid_at (ts ! k) r q"
    and le: "\<forall>j<length ts. valid_at (ts ! j) r q \<longrightarrow>
               fle (decision (ts ! j) r q) (decision (ts ! k) r q)"
    and lt: "\<forall>j<k. valid_at (ts ! j) r q \<longrightarrow>
               fgt (decision (ts ! k) r q) (decision (ts ! j) r q)"
    by (simp_all add: first_highest_iff)
  show ?thesis
    unfolding first_highest_iff
  proof (intro conjI allI impI)
    show "k < length (ts @ [t])" using k by simp
    show "valid_at ((ts @ [t]) ! k) r q" using k vk by (simp add: nth_append)
  next
    fix j assume j: "j < length (ts @ [t])" and v: "valid_at ((ts @ [t]) ! j) r q"
    show "fle (decision ((ts @ [t]) ! j) r q) (decision ((ts @ [t]) ! k) r q)"
    proof (cases "j < length ts")
      case True
      then show ?thesis using le v k by (simp add: nth_append)
    next
      case False
      then have "j = length ts" using j by simp
      then show ?thesis using assms(2) v k by (simp add: nth_append)
    qed
  next
    fix j assume j: "j < k" and v: "valid_at ((ts @ [t]) ! j) r q"
    then have "j < length ts" using k by simp
    then show "fgt (decision ((ts @ [t]) ! k) r q) (decision ((ts @ [t]) ! j) r q)"
      using lt j v k by (simp add: nth_append)
  qed
qed

lemma pixel_inv_single:
  assumes "valid_at t r q \<longrightarrow> decision t r q \<noteq> NaN"
  shows "pixel_inv [t] t nb r q"
proof (cases "valid_at t r q")
  case True
  then have "first_highest [t] r q 0" using assms by (simp add: first_highest_single)
  then show ?thesis using True unfolding pixel_inv_def by fastforce
next
  case False
  then show ?thesis by (simp add: pixel_inv_def)
qed

lemma pixel_inv_step:
  assumes sh: "tile_shape nb h w t" "tile_shape nb h w m" "pixel_mask t" "pixel_mask m"
    and nb: "0 < nb" and r: "r < h" and q: "q < w"
    and nn: "valid_at t r q \<longrightarrow> decision t r q \<noteq> NaN"
    and inv: "pixel_inv ts m nb r q"
  shows "pixel_inv (ts @ [t]) (merged t m) nb r q"
proof -
  let ?x = "merged t m"
  let ?c = "(fgt (decision t r q) (decision m r q) \<and> valid_at t r q) \<or> \<not> valid_at m r q"
  have vx: "valid_at ?x r q \<longleftrightarrow> valid_at m r q \<or> valid_at t r q"
    by (rule valid_at_merged[OF sh nb r q])
  have dx: "decision ?x r q = (if ?c then decision t r q else decision m r q)"
    by (rule decision_merged[OF sh nb r q])
  have cx: "\<And>b. b < nb \<Longrightarrow> data_arr ?x ! b ! r ! q =
      (if ?c then data_arr t ! b ! r ! q else data_arr m ! b ! r ! q)"
    by (rule data_merged_pixel[OF sh _ r q])
  have last_t: "(ts @ [t]) ! length ts = t" by simp
  from inv consider
    (none) "\<not> valid_at m r q" "\<forall>j<length ts. \<not> valid_at (ts ! j) r q"
    | (some) k where "first_highest ts r q k" "valid_at m r q"
        "decision m r q = decision (ts ! k) r q"
        "\<forall>b<nb. data_arr m ! b ! r ! q = data_arr (ts ! k) ! b ! r ! q"
    unfolding pixel_inv_def by blast
  then show ?thesis
  proof cases
    case none
    show ?thesis
    proof (cases "valid_at t r q")
      case True
      have "first_highest (ts @ [t]) r q (length ts)"
        using True none(2) nn by (intro first_highest_new) simp_all
      moreover have "valid_at ?x r q" using vx True by simp
      moreover have "decision ?x r q = decision ((ts @ [t]) ! length ts) r q"
        using dx none(1) by simp
      moreover have "\<forall>b<nb. data_arr ?x ! b ! r ! q = data_arr ((ts @ [t]) ! length ts) ! b ! r ! q"
        using cx none(1) by simp
      ultimately show ?thesis unfolding pixel_inv_def by blast
    next
      case False
      have "\<not> valid_at ?x r q" using vx False none(1) by simp
      moreover have "\<forall>j<length (ts @ [t]). \<not> valid_at ((ts @ [t]) ! j) r q"
        using none(2) False by (simp add: nth_append less_Suc_eq)
      ultimately show ?thesis unfolding pixel_inv_def by blast
    qed
  next
    case some
    from some(1) have k: "k < length ts" by (simp add: first_highest_iff)
    have kth: "(ts @ [t]) ! k = ts ! k" using k by (simp add: nth_append)
    have numk: "decision (ts ! k) r q \<noteq> NaN" by (rule first_highest_number[OF some(1)])
    show ?thesis
    proof (cases "fgt (decision t r q) (decision m r q) \<and> valid_at t r q")
      case True
      have "\<forall>j<length ts. valid_at (ts ! j) r q \<longrightarrow> fgt (decision t r q) (decision (ts ! j) r q)"
      proof (intro allI impI)
        fix j assume "j < length ts" "valid_at (ts ! j) r q"
        then have "fle (decision (ts ! j) r q) (decision (ts ! k) r q)"
          using some(1) by (simp add: first_highest_iff)
        moreover have "fgt (decision t r q) (decision (ts ! k) r q)"
          using True some(3) by simp
        ultimately show "fgt (decision t r q) (decision (ts ! j) r q)"
          by (rule fle_fgt_trans)
      qed
      then have "first_highest (ts @ [t]) r q (length ts)"
        using True nn by (intro first_highest_new) simp_all
      moreover have "valid_at ?x r q" using vx True by simp
      moreover have "decision ?x r q = decision ((ts @ [t]) ! length ts) r q"
        using dx True by simp
      moreover have "\<forall>b<nb. data_arr ?x ! b ! r ! q = data_arr ((ts @ [t]) ! length ts) ! b ! r ! q"
        using cx True by simp
      ultimately show ?thesis unfolding pixel_inv_def by blast
    next
      case False
      have "fle (decision t r q) (decision (ts ! k) r q)" if "valid_at t r q"
      proof -
        from that False have "\<not> fgt (decision t r q) (decision (ts ! k) r q)"
          using some(3) by simp
        moreover have "decision t r q \<noteq> NaN" using nn that by simp
        ultimately show ?thesis using numk by (rule not_fgt_fle)
      qed
      then have "valid_at t r q \<longrightarrow> fle (decision t r q) (decision (ts ! k) r q)" by simp
      with some(1) have "first_highest (ts @ [t]) r q k" by (rule first_highest_keep)
      moreover have "valid_at ?x r q" using vx some(2) by simp
      moreover have "decision ?x r q = decision ((ts @ [t]) ! k) r q"
        using dx False some(2,3) kth by auto
      moreover have "\<forall>b<nb. data_arr ?x ! b ! r ! q = data_arr ((ts @ [t]) ! k) ! b ! r ! q"
        using cx False some(2,4) kth by auto
      ultimately show ?thesis unfolding pixel_inv_def by blast
    qed
  qed
qed

lemma highest_invariant:
  assumes nb: "0 < nb" and r: "r < h" and q: "q < w" and ne: "ts \<noteq> []"
    and sh: "\<forall>t\<in>set ts. tile_shape nb h w t \<and> pixel_mask t"
    and nn: "\<forall>t\<in>set ts. valid_at t r q \<longrightarrow> decision t r q \<noteq> NaN"
  shows "\<exists>m. feed_all new_CustomFourthBandH ts = Inr \<lparr>mosaic = Some m\<rparr>
           \<and> tile_shape nb h w m \<and> pixel_mask m \<and> pixel_inv ts m nb r q"
  using ne sh nn
proof (induction ts rule: rev_nonempty_induct)
  case (single t)
  then show ?case
    by (simp add: feed_None new_CustomFourthBandH_def pixel_inv_single)
next
  case (snoc t ts)
  then obtain m where m: "feed_all new_CustomFourthBandH ts = Inr \<lparr>mosaic = Some m\<rparr>"
    "tile_shape nb h w m" "pixel_mask m" "pixel_inv ts m nb r q"
    by auto
  from snoc.prems have t: "tile_shape nb h w t" "pixel_mask t"
    "valid_at t r q \<longrightarrow> decision t r q \<noteq> NaN" by simp_all
  have "feed \<lparr>mosaic = Some m\<rparr> t = Inr \<lparr>mosaic = Some (merged t m)\<rparr>"
    using feed_Some[OF t(1) m(2) nb, of "\<lparr>mosaic = Some m\<rparr>"] by simp
  then have "feed_all new_CustomFourthBandH (ts @ [t]) = Inr \<lparr>mosaic = Some (merged t m)\<rparr>"
    using m(1) by (simp add: feed_all_append)
  moreover have "tile_shape nb h w (merged t m)" by (rule tile_shape_merged[OF t(1) m(2) nb])
  moreover have "pixel_mask (merged t m)" by (rule pixel_mask_merged[OF t(1) m(2) t(2) m(3) nb])
  moreover have "pixel_inv (ts @ [t]) (merged t m) nb r q"
    by (rule pixel_inv_step[OF t(1) m(2) t(2) m(3) nb r q t(3) m(4)])
  ultimately show ?case by blast
qed

subsection \<open>Coverage\<close>

lemma count_filter_mono:
  "list_all2 (\<lambda>x y. P x \<longrightarrow> Q y) xs ys \<Longrightarrow> length (filter P xs) \<le> length (filter Q ys)"
  by (induction rule: list_all2_induct) auto

lemma list_all2_concat:
  "list_all2 (list_all2 R) xss yss \<Longrightarrow> list_all2 R (concat xss) (concat yss)"
  by (induction rule: list_all2_induct) (auto intro: list_all2_appendI)

lemma count_valid_mono:
  assumes "dims3 nb h w x" "dims3 nb h w y"
    and "\<And>b r q. b < nb \<Longrightarrow> r < h \<Longrightarrow> q < w \<Longrightarrow> \<not> x ! b ! r ! q \<Longrightarrow> \<not> y ! b ! r ! q"
  shows "count_valid x \<le> count_valid y"
proof -
  have "list_all2 (list_all2 (list_all2 (\<lambda>u v. \<not> u \<longrightarrow> \<not> v))) x y"
    using assms by (simp add: dims3_iff list_all2_conv_all_nth)
  then have "list_all2 (\<lambda>u v. \<not> u \<longrightarrow> \<not> v) (concat (concat x)) (concat (concat y))"
    by (intro list_all2_concat)
  then show ?thesis unfolding count_valid_def by (rule count_filter_mono)
qed

lemma merged_keeps_valid:
  assumes "tile_shape nb h w array" "tile_shape nb h w mos" "b < nb" "r < h" "q < w"
    and "\<not> mask_arr mos ! b ! r ! q"
  shows "\<not> mask_arr (merged array mos) ! b ! r ! q"
  using assms by (simp add: mask_merged replaces_def)

lemma cell_valid_iff:
  "tile_shape nb h w mos \<Longrightarrow> mosaic self = Some mos \<Longrightarrow>
     cell_valid self b r q \<longleftrightarrow> b < nb \<and> r < h \<and> q < w \<and> \<not> mask_arr mos ! b ! r ! q"
  by (auto simp: cell_valid_def tile_shape_def dims3_iff)

lemma custom_coverage_step:
  assumes nb: "0 < nb" and t: "tile_shape nb h w t" and s: "selector_shape nb h w self"
  shows "\<exists>self'. feed self t = Inr self' \<and> selector_shape nb h w self'
           \<and> valid_cells self \<le> valid_cells self'
           \<and> (\<forall>b r q. cell_valid self b r q \<longrightarrow> cell_valid self' b r q)"
proof (cases "mosaic self")
  case None
  then show ?thesis
    using t by (simp add: feed_None selector_shape_def valid_cells_def cell_valid_def)
next
  case (Some mos)
  then have m: "tile_shape nb h w mos" using s by (simp add: selector_shape_def)
  let ?self' = "self\<lparr>mosaic := Some (merged t mos)\<rparr>"
  have f: "feed self t = Inr ?self'" by (rule feed_Some[OF t m nb Some])
  have x: "tile_shape nb h w (merged t mos)" by (rule tile_shape_merged[OF t m nb])
  have keep: "\<And>b r q. b < nb \<Longrightarrow> r < h \<Longrightarrow> q < w \<Longrightarrow> \<not> mask_arr mos ! b ! r ! q \<Longrightarrow>
      \<not> mask_arr (merged t mos) ! b ! r ! q"
    by (rule merged_keeps_valid[OF t m])
  have "count_valid (mask_arr mos) \<le> count_valid (mask_arr (merged t mos))"
    using m x keep by (intro count_valid_mono[of nb h w]) (simp_all add: tile_shape_def)
  then have "valid_cells self \<le> valid_cells ?self'"
    using Some by (simp add: valid_cells_def)
  moreover have "cell_valid ?self' b r q" if "cell_valid self b r q" for b r q
  proof -
    from that have c: "b < nb" "r < h" "q < w" "\<not> mask_arr mos ! b ! r ! q"
      using cell_valid_iff[OF m Some] by simp_all
    have "mosaic ?self' = Some (merged t mos)" by simp
    from cell_valid_iff[OF x this] keep[OF c] c show ?thesis by simp
  qed
  moreover have "selector_shape nb h w ?self'" using x by (simp add: selector_shape_def)
  ultimately show ?thesis using f by blast
qed

lemma seen_step: "seen a \<Longrightarrow> seen (step p a v vs)"
  by (cases a; cases p) (simp_all add: step_def)

lemma length_acc_feed [simp]: "length (acc (feed_builtin s t)) = length (acc s)"
  by (simp add: feed_builtin_def)

lemma length_row_feed [simp]:
  "r < length (acc s) \<Longrightarrow> length (acc (feed_builtin s t) ! r) = length (acc s ! r)"
  by (simp add: feed_builtin_def)

lemma nth_acc_feed:
  "r < length (acc s) \<Longrightarrow> q < length (acc s ! r) \<Longrightarrow>
     acc (feed_builtin s t) ! r ! q = step (pol s) (acc s ! r ! q) (tile_mask t ! r ! q) (pixel t r q)"
  by (simp add: feed_builtin_def)

lemma builtin_coverage_step:
  "count_seen s \<le> count_seen (feed_builtin s t)
   \<and> (\<forall>r q. seen_at s r q \<longrightarrow> seen_at (feed_builtin s t) r q)"
proof -
  have "list_all2 (list_all2 (\<lambda>a a'. seen a \<longrightarrow> seen a')) (acc s) (acc (feed_builtin s t))"
    by (simp add: list_all2_conv_all_nth nth_acc_feed seen_step)
  then have "list_all2 (\<lambda>a a'. seen a \<longrightarrow> seen a') (concat (acc s)) (concat (acc (feed_builtin s t)))"
    by (rule list_all2_concat)
  then have "count_seen s \<le> count_seen (feed_builtin s t)"
    unfolding count_seen_def by (rule count_filter_mono)
  moreover have "seen_at (feed_builtin s t) r q" if "seen_at s r q" for r q
    using that by (simp add: seen_at_def nth_acc_feed seen_step)
  ultimately show ?thesis by blast
qed

subsection \<open>Tiles without a valid pixel\<close>

lemma all_masked_nth:
  "dims3 nb h w m \<Longrightarrow> all_masked m \<Longrightarrow> b < nb \<Longrightarrow> r < h \<Longrightarrow> q < w \<Longrightarrow> m ! b ! r ! q"
  by (simp add: dims3_iff all_masked_def list_all_length)

lemma masked_tile_keeps_mosaic:
  assumes nb: "0 < nb" and t: "tile_shape nb h w t" and inv: "all_masked (mask_arr t)"
    and m: "tile_shape nb h w mos"
  shows "mask_arr (merged t mos) = mask_arr mos"
    and "\<forall>b<nb. \<forall>r<h. \<forall>q<w. \<not> mask_arr mos ! b ! r ! q \<longrightarrow>
           data_arr (merged t mos) ! b ! r ! q = data_arr mos ! b ! r ! q"
proof -
  have tm: "mask_arr t ! b ! r ! q" if "b < nb" "r < h" "q < w" for b r q
    using t inv that by (intro all_masked_nth[of nb h w]) (simp_all add: tile_shape_def)
  have rp: "replaces t mos b r q = mask_arr mos ! b ! r ! q" if "b < nb" "r < h" "q < w" for b r q
    using tm[OF that] by (simp add: replaces_def)
  have x: "tile_shape nb h w (merged t mos)" by (rule tile_shape_merged[OF t m nb])
  show "mask_arr (merged t mos) = mask_arr mos"
  proof (rule dims3_eqI[of nb h w])
    show "dims3 nb h w (mask_arr (merged t mos))" using x by (simp add: tile_shape_def)
    show "dims3 nb h w (mask_arr mos)" using m by (simp add: tile_shape_def)
  next
    fix b r q assume c: "b < nb" "r < h" "q < w"
    show "mask_arr (merged t mos) ! b ! r ! q = mask_arr mos ! b ! r ! q"
      using mask_merged[OF t m c] rp[OF c] tm[OF c] by simp
  qed
  show "\<forall>b<nb. \<forall>r<h. \<forall>q<w. \<not> mask_arr mos ! b ! r ! q \<longrightarrow>
           data_arr (merged t mos) ! b ! r ! q = data_arr mos ! b ! r ! q"
  proof (intro allI impI)
    fix b r q assume c: "b < nb" "r < h" "q < w" and v: "\<not> mask_arr mos ! b ! r ! q"
    show "data_arr (merged t mos) ! b ! r ! q = data_arr mos ! b ! r ! q"
      using data_merged[OF t m c] rp[OF c] v by simp
  qed
qed

lemma merged_over_masked:
  assumes nb: "0 < nb" and t: "tile_shape nb h w t" and inv: "all_masked (mask_arr t)"
    and u: "tile_shape nb h w u"
  shows "merged u t = u"
proof -
  have tm: "mask_arr t ! b ! r ! q" if "b < nb" "r < h" "q < w" for b r q
    using t inv that by (intro all_masked_nth[of nb h w]) (simp_all add: tile_shape_def)
  have rp: "replaces u t b r q" if "b < nb" "r < h" "q < w" for b r q
    using tm[OF that] by (simp add: replaces_def)
  have x: "tile_shape nb h w (merged u t)" by (rule tile_shape_merged[OF u t nb])
  have "mask_arr (merged u t) = mask_arr u"
  proof (rule dims3_eqI[of nb h w])
    show "dims3 nb h w (mask_arr (merged u t))" using x by (simp add: tile_shape_def)
    show "dims3 nb h w (mask_arr u)" using u by (simp add: tile_shape_def)
  next
    fix b r q assume c: "b < nb" "r < h" "q < w"
    show "mask_arr (merged u t) ! b ! r ! q = mask_arr u ! b ! r ! q"
      using mask_merged[OF u t c] rp[OF c] by simp
  qed
  moreover have "data_arr (merged u t) = data_arr u"
  proof (rule dims3_eqI[of nb h w])
    show "dims3 nb h w (data_arr (merged u t))" using x by (simp add: tile_shape_def)
    show "dims3 nb h w (data_arr u)" using u by (simp add: tile_shape_def)
  next
    fix b r q assume c: "b < nb" "r < h" "q < w"
    show "data_arr (merged u t) ! b ! r ! q = data_arr u ! b ! r ! q"
      using data_merged[OF u t c] rp[OF c] by simp
  qed
  ultimately show ?thesis by simp
qed

lemma all_masked_butlast: "all_masked m \<Longrightarrow> all_masked (butlast m)"
  by (auto simp: all_masked_def list_all_iff dest: in_set_butlastD)

lemma count_valid_masked:
  assumes "all_masked m" shows "count_valid m = 0"
proof -
  have "\<forall>v\<in>set (concat (concat m)). v"
    using assms by (auto simp: all_masked_def list_all_iff)
  then show ?thesis by (simp add: count_valid_def)
qed

lemma step_invalid [simp]: "step p a False vs = a"
  by (simp add: step_def)

lemma feed_builtin_invalid:
  assumes "grid_shape h w (acc s)" "grid_shape h w (tile_mask t)" "all_invalid t"
  shows "feed_builtin s t = s"
proof -
  have len: "length (acc s) = h" "length (tile_mask t) = h"
    and rows: "\<And>r. r < h \<Longrightarrow> length (acc s ! r) = w" "\<And>r. r < h \<Longrightarrow> length (tile_mask t ! r) = w"
    using assms(1,2) by (simp_all add: grid_shape_def list_all_length)
  have inv: "\<not> tile_mask t ! r ! q" if "r < h" "q < w" for r q
    using assms(3) len rows that by (simp add: all_invalid_def list_all_length)
  have "acc (feed_builtin s t) = acc s"
  proof (rule nth_equalityI)
    show "length (acc (feed_builtin s t)) = length (acc s)" by simp
  next
    fix r assume "r < length (acc (feed_builtin s t))"
    then have r: "r < h" using len by simp
    show "acc (feed_builtin s t) ! r = acc s ! r"
    proof (rule nth_equalityI)
      show "length (acc (feed_builtin s t) ! r) = length (acc s ! r)" using r len by simp
    next
      fix q assume "q < length (acc (feed_builtin s t) ! r)"
      then have q: "q < w" using r len rows by simp
      show "acc (feed_builtin s t) ! r ! q = acc s ! r ! q"
        using r q len rows inv[OF r q] by (simp add: nth_acc_feed)
    qed
  qed
  then show ?thesis by (simp add: feed_builtin_def)
qed

subsection \<open>The orchestration\<close>

declare batches.simps [simp del]

lemma batches_Nil [simp]: "batches n [] = []"
  by (simp add: batches.simps)

lemma batches_0 [simp]: "batches 0 xs = []"
  by (simp add: batches.simps)

lemma batches_Cons: "0 < n \<Longrightarrow> xs \<noteq> [] \<Longrightarrow> batches n xs = take n xs # batches n (drop n xs)"
  by (subst batches.simps) simp

lemma concat_batches: "0 < n \<Longrightarrow> concat (batches n xs) = xs"
proof (induction n xs rule: batches.induct)
  case (1 n xs)
  show ?case
  proof (cases "xs = []")
    case True
    then show ?thesis by simp
  next
    case False
    then show ?thesis using 1 by (simp add: batches_Cons)
  qed
qed

lemma concat_take_batches: "0 < n \<Longrightarrow> concat (take k (batches n xs)) = take (k * n) xs"
proof (induction n xs arbitrary: k rule: batches.induct)
  case (1 n xs)
  show ?case
  proof (cases "xs = []")
    case True
    then show ?thesis by simp
  next
    case False
    show ?thesis
    proof (cases k)
      case 0
      then show ?thesis by simp
    next
      case (Suc j)
      have "concat (take j (batches n (drop n xs))) = take (j * n) (drop n xs)"
        using 1 False by simp
      then have "concat (take k (batches n xs)) = take n xs @ take (j * n) (drop n xs)"
        using Suc False 1(2) by (simp add: batches_Cons)
      also have "\<dots> = take (n + j * n) xs" by (simp add: take_add)
      finally show ?thesis using Suc by simp
    qed
  qed
qed

lemma dispatch_append: "dispatch f (xs @ ys) = dispatch f xs @ dispatch f ys"
  by (simp add: dispatch_def)

lemma tiles_of_append: "tiles_of f (xs @ ys) = tiles_of f xs @ tiles_of f ys"
  by (induction xs) (auto split: fetched.splits)

lemma failures_of_append: "failures_of f (xs @ ys) = failures_of f xs @ failures_of f ys"
  by (induction xs) (auto split: fetched.splits)

lemma tiles_of_filter: "tiles_of f (filter (\<lambda>a. is_fetched (f a)) xs) = tiles_of f xs"
  by (induction xs) (auto split: fetched.splits)

lemma feed_tiles_append:
  "feed_tiles sel s (ts @ us) =
     (case feed_tiles sel s ts of Inl e \<Rightarrow> Inl e | Inr s' \<Rightarrow> feed_tiles sel s' us)"
  by (induction ts arbitrary: s) (auto split: sum.splits)

lemma feed_resolved_eq:
  "feed_resolved sel st (dispatch f xs) =
     (case feed_tiles sel (sel_state st) (tiles_of f xs) of
        Inl e \<Rightarrow> Inl e
      | Inr s' \<Rightarrow> Inr (st\<lparr>sel_state := s',
                        used := used st @ filter (\<lambda>a. is_fetched (f a)) xs,
                        failures := failures st @ failures_of f xs\<rparr>))"
proof (induction xs arbitrary: st)
  case Nil
  then show ?case by (simp add: dispatch_def)
next
  case (Cons a xs)
  have d: "dispatch f (a # xs) = (a, f a) # dispatch f xs" by (simp add: dispatch_def)
  show ?case
  proof (cases "f a")
    case (Fetched t)
    then show ?thesis using Cons by (simp add: d split: sum.splits)
  next
    case OutsideBounds
    then show ?thesis using Cons by (simp add: d split: sum.splits)
  next
    case (FetchError msg)
    then show ?thesis using Cons by (simp add: d split: sum.splits)
  qed
qed

lemma feed_resolved_append:
  "feed_resolved sel st (dispatch f (xs @ ys)) =
     (case feed_resolved sel st (dispatch f xs) of
        Inl e \<Rightarrow> Inl e
      | Inr st' \<Rightarrow> feed_resolved sel st' (dispatch f ys))"
  by (simp add: feed_resolved_eq tiles_of_append failures_of_append feed_tiles_append
      split: sum.splits)

lemma run_batches_never_done:
  assumes "never_done sel"
  shows "feed_tiles sel (sel_init sel) ts0 = Inr (sel_state st) \<Longrightarrow>
     run_batches sel f st bs = feed_resolved sel st (dispatch f (concat bs))"
proof (induction bs arbitrary: st ts0)
  case Nil
  then show ?case by (simp add: dispatch_def)
next
  case (Cons b bs)
  show ?case
  proof (cases "feed_resolved sel st (dispatch f b)")
    case (Inl e)
    then show ?thesis by (simp add: feed_resolved_append)
  next
    case (Inr st1)
    then have "feed_tiles sel (sel_state st) (tiles_of f b) = Inr (sel_state st1)"
      by (auto simp: feed_resolved_eq split: sum.splits)
    then have reach: "feed_tiles sel (sel_init sel) (ts0 @ tiles_of f b) = Inr (sel_state st1)"
      using Cons.prems by (simp add: feed_tiles_append)
    then have "\<not> sel_is_done sel (sel_state st1)"
      using assms unfolding never_done_def by blast
    then show ?thesis
      using Inr Cons.IH[OF reach] by (simp add: feed_resolved_append)
  qed
qed

lemma run_batches_stop:
  "run_batches sel f st bs = Inr st' \<Longrightarrow>
     \<exists>k\<le>length bs. feed_resolved sel st (dispatch f (concat (take k bs))) = Inr st'
        \<and> (k < length bs \<longrightarrow> sel_is_done sel (sel_state st'))"
proof (induction bs arbitrary: st)
  case Nil
  then show ?case by (simp add: dispatch_def)
next
  case (Cons b bs)
  from Cons.prems obtain st1 where st1: "feed_resolved sel st (dispatch f b) = Inr st1"
    by (auto split: sum.splits)
  show ?case
  proof (cases "sel_is_done sel (sel_state st1)")
    case True
    then have "st' = st1" using Cons.prems st1 by simp
    then have "feed_resolved sel st (dispatch f (concat (take 1 (b # bs)))) = Inr st'"
      using st1 by simp
    then show ?thesis using True \<open>st' = st1\<close> by (intro exI[of _ 1]) simp
  next
    case False
    then have "run_batches sel f st1 bs = Inr st'" using Cons.prems st1 by simp
    from Cons.IH[OF this] obtain k where k: "k \<le> length bs"
      "feed_resolved sel st1 (dispatch f (concat (take k bs))) = Inr st'"
      "k < length bs \<longrightarrow> sel_is_done sel (sel_state st')" by blast
    have "feed_resolved sel st (dispatch f (concat (take (Suc k) (b # bs)))) = Inr st'"
      using st1 k(2) by (simp add: feed_resolved_append)
    then show ?thesis using k(1,3) by (intro exI[of _ "Suc k"]) simp
  qed
qed

lemma run_batches_raise:
  "run_batches sel f st bs = Inl e \<Longrightarrow>
     \<exists>k\<le>length bs. feed_resolved sel st (dispatch f (concat (take k bs))) = Inl e"
proof (induction bs arbitrary: st)
  case Nil
  then show ?case by simp
next
  case (Cons b bs)
  show ?case
  proof (cases "feed_resolved sel st (dispatch f b)")
    case (Inl e')
    then have "e' = e" using Cons.prems by simp
    then have "feed_resolved sel st (dispatch f (concat (take 1 (b # bs)))) = Inl e"
      using Inl by simp
    then show ?thesis by (intro exI[of _ 1]) simp
  next
    case (Inr st1)
    then have "run_batches sel f st1 bs = Inl e"
      using Cons.prems by (simp split: if_splits)
    from Cons.IH[OF this] obtain k where k: "k \<le> length bs"
      "feed_resolved sel st1 (dispatch f (concat (take k bs))) = Inl e" by blast
    have "feed_resolved sel st (dispatch f (concat (take (Suc k) (b # bs)))) = Inl e"
      using Inr k(2) by (simp add: feed_resolved_append)
    then show ?thesis using k(1) by (intro exI[of _ "Suc k"]) simp
  qed
qed

lemma take_batches_prefix: "\<exists>n. concat (take k (batches mc xs)) = take n xs"
proof (cases "mc = 0")
  case True
  then have "concat (take k (batches mc xs)) = take 0 xs" by simp
  then show ?thesis by blast
next
  case False
  then have "concat (take k (batches mc xs)) = take (k * mc) xs"
    by (simp add: concat_take_batches)
  then show ?thesis by blast
qed

lemma composite_never_done:
  assumes "never_done sel" "0 < mc"
  shows "composite assets f sel mc =
           (case feed_tiles sel (sel_init sel) (tiles_of f assets) of
              Inl e \<Rightarrow> Inl e
            | Inr s \<Rightarrow> Inr \<lparr>mosaic_res = sel_result sel s,
                             assets_used = filter (\<lambda>a. is_fetched (f a)) assets\<rparr>)"
proof -
  let ?st0 = "\<lparr>sel_state = sel_init sel, used = [], failures = []\<rparr>"
  have "run_batches sel f ?st0 (batches mc assets) =
      feed_resolved sel ?st0 (dispatch f (concat (batches mc assets)))"
    by (rule run_batches_never_done[OF assms(1), of "[]"]) simp
  then show ?thesis
    unfolding composite_def using assms(2)
    by (simp add: concat_batches feed_resolved_eq split: sum.splits)
qed

lemma never_done_custom: "never_done custom_selector"
  by (simp add: never_done_def custom_selector_def)

lemma composite_Inl:
  fixes sel :: "('s, 't, 'r) selector" and assets :: "'a list"
  assumes "composite assets f sel mc = Inl e"
  shows "\<exists>n. feed_tiles sel (sel_init sel) (tiles_of f (take n assets)) = Inl e"
proof -
  let ?st0 = "\<lparr>sel_state = sel_init sel, used = [], failures = []\<rparr> :: ('a, 's) progress"
  from assms have "run_batches sel f ?st0 (batches mc assets) = Inl e"
    by (auto simp: composite_def split: sum.splits)
  from run_batches_raise[OF this] obtain k where
    k: "feed_resolved sel ?st0 (dispatch f (concat (take k (batches mc assets)))) = Inl e"
    by blast
  obtain n where n: "concat (take k (batches mc assets)) = take n assets"
    using take_batches_prefix by blast
  from k have "feed_tiles sel (sel_init sel) (tiles_of f (take n assets)) = Inl e"
    unfolding n by (auto simp: feed_resolved_eq split: sum.splits)
  then show ?thesis by blast
qed

lemma composite_Inr:
  fixes sel :: "('s, 't, 'r) selector" and assets :: "'a list"
  assumes "composite assets f sel mc = Inr res" and "0 < mc"
  shows "\<exists>n s. assets_used res = filter (\<lambda>a. is_fetched (f a)) (take n assets)
           \<and> feed_tiles sel (sel_init sel) (tiles_of f (assets_used res)) = Inr s
           \<and> mosaic_res res = sel_result sel s
           \<and> (n < length assets \<longrightarrow> sel_is_done sel s)"
proof -
  let ?st0 = "\<lparr>sel_state = sel_init sel, used = [], failures = []\<rparr> :: ('a, 's) progress"
  let ?bs = "batches mc assets"
  from assms(1) obtain st where st: "run_batches sel f ?st0 ?bs = Inr st"
    and res: "res = \<lparr>mosaic_res = sel_result sel (sel_state st), assets_used = used st\<rparr>"
    by (auto simp: composite_def split: sum.splits)
  from run_batches_stop[OF st] obtain k where
    k: "feed_resolved sel ?st0 (dispatch f (concat (take k ?bs))) = Inr st"
    and stop: "k < length ?bs \<longrightarrow> sel_is_done sel (sel_state st)"
    by blast
  have n: "concat (take k ?bs) = take (k * mc) assets"
    using assms(2) by (simp add: concat_take_batches)
  have early: "k < length ?bs" if "k * mc < length assets"
  proof (rule ccontr)
    assume "\<not> k < length ?bs"
    then have "take k ?bs = ?bs" by simp
    then have "take (k * mc) assets = assets"
      using n assms(2) by (simp add: concat_batches)
    then have "length (take (k * mc) assets) = length assets" by simp
    then show False using that by simp
  qed
  from k have "feed_tiles sel (sel_init sel) (tiles_of f (take (k * mc) assets)) = Inr (sel_state st)
      \<and> used st = filter (\<lambda>a. is_fetched (f a)) (take (k * mc) assets)"
    unfolding n by (auto simp: feed_resolved_eq split: sum.splits)
  then show ?thesis using res stop early by (auto simp: tiles_of_filter)
qed

subsection \<open>The built-in policies as selectors\<close>

lemma feed_tiles_builtin:
  "feed_tiles (builtin_selector p nb h w) s ts = Inr (foldl feed_builtin s ts)"
  by (induction ts arbitrary: s) (simp_all add: builtin_selector_def)

lemma never_done_builtin: "p \<noteq> First \<Longrightarrow> never_done (builtin_selector p nb h w)"
proof -
  assume p: "p \<noteq> First"
  have "pol (foldl feed_builtin (new_builtin p nb h w) ts) = p" for ts
  proof (induction ts rule: rev_induct)
    case Nil
    then show ?case by (simp add: new_builtin_def)
  next
    case (snoc t ts)
    then show ?case by (simp add: feed_builtin_def)
  qed
  then show ?thesis
    using p unfolding never_done_def feed_tiles_builtin
    by (auto simp: builtin_selector_def is_done_builtin_def)
qed

subsection \<open>The Mean policy\<close>

lemma foldl_feed_fields [simp]:
  "pol (foldl feed_builtin s ts) = pol s"
  "nbands (foldl feed_builtin s ts) = nbands s"
  "length (acc (foldl feed_builtin s ts)) = length (acc s)"
  by (induction ts arbitrary: s) (simp_all add: feed_builtin_def)

lemma foldl_feed_row [simp]:
  "r < length (acc s) \<Longrightarrow> length (acc (foldl feed_builtin s ts) ! r) = length (acc s ! r)"
  by (induction ts arbitrary: s) simp_all

lemma pixel_conv:
  "length (tile_bands t) = nb \<Longrightarrow> pixel t r q = map (\<lambda>b. tile_bands t ! b ! r ! q) [0..<nb]"
  by (auto simp: pixel_def list_eq_iff_nth_eq)

lemma contributions_snoc:
  "contributions (ts @ [t]) b r q =
     (if tile_mask t ! r ! q then contributions ts b r q @ [tile_bands t ! b ! r ! q]
      else contributions ts b r q)"
  by (simp add: contributions_def)

lemma length_contributions:
  "length (contributions ts b r q) = length (filter (\<lambda>t. tile_mask t ! r ! q) ts)"
  by (simp add: contributions_def)

lemma mean_acc_snoc:
  assumes "length (tile_bands t) = nb"
  shows "step Mean (mean_acc ts nb r q) (tile_mask t ! r ! q) (pixel t r q) = mean_acc (ts @ [t]) nb r q"
proof (cases "tile_mask t ! r ! q")
  case False
  then show ?thesis by (simp add: mean_acc_def contributions_snoc)
next
  case True
  show ?thesis
  proof (cases "filter (\<lambda>t. tile_mask t ! r ! q) ts = []")
    case e: True
    then have "\<And>b. contributions ts b r q = []" by (simp add: contributions_def)
    then show ?thesis
      using True e by (simp add: mean_acc_def step_def contributions_snoc pixel_conv[OF assms] comp_def)
  next
    case ne: False
    then show ?thesis
      using True
      by (simp add: mean_acc_def step_def contributions_snoc pixel_conv[OF assms] map2_map_map comp_def)
  qed
qed

lemma mean_accumulator:
  assumes "r < h" "q < w" "\<forall>t\<in>set ts. length (tile_bands t) = nb"
  shows "acc (foldl feed_builtin (new_builtin Mean nb h w) ts) ! r ! q = mean_acc ts nb r q"
  using assms(3)
proof (induction ts rule: rev_induct)
  case Nil
  then show ?case using assms(1,2) by (simp add: new_builtin_def mean_acc_def)
next
  case (snoc t ts)
  let ?s = "foldl feed_builtin (new_builtin Mean nb h w) ts"
  have dims: "r < length (acc ?s)" "q < length (acc ?s ! r)"
    using assms(1,2) by (simp_all add: new_builtin_def)
  have "pol ?s = Mean" by (simp add: new_builtin_def)
  moreover have "acc ?s ! r ! q = mean_acc ts nb r q" using snoc by simp
  moreover have "length (tile_bands t) = nb" using snoc.prems by simp
  ultimately show ?case
    using nth_acc_feed[OF dims, of t] by (simp add: mean_acc_snoc)
qed

lemma result_cell:
  assumes "r < length (acc s)" "q < length (acc s ! r)"
  shows "tile_mask (result_builtin s) ! r ! q = seen (acc s ! r ! q)"
    and "pol s \<noteq> Count \<Longrightarrow> b < nbands s \<Longrightarrow>
           tile_bands (result_builtin s) ! b ! r ! q = band_value (pol s) (acc s ! r ! q) b"
  using assms by (simp_all add: result_builtin_def)

lemma mean_result:
  assumes "r < h" "q < w" "b < nb" "\<forall>t\<in>set ts. length (tile_bands t) = nb"
  shows "tile_mask (result_builtin (foldl feed_builtin (new_builtin Mean nb h w) ts)) ! r ! q
           \<longleftrightarrow> contributions ts b r q \<noteq> []"
    and "contributions ts b r q \<noteq> [] \<Longrightarrow>
         tile_bands (result_builtin (foldl feed_builtin (new_builtin Mean nb h w) ts)) ! b ! r ! q
           = sum_list (contributions ts b r q) / real (length (contributions ts b r q))"
proof -
  let ?s = "foldl feed_builtin (new_builtin Mean nb h w) ts"
  have dims: "r < length (acc ?s)" "q < length (acc ?s ! r)"
    using assms(1,2) by (simp_all add: new_builtin_def)
  have a: "acc ?s ! r ! q = mean_acc ts nb r q" by (rule mean_accumulator[OF assms(1,2,4)])
  have fields: "pol ?s = Mean" "nbands ?s = nb" by (simp_all add: new_builtin_def)
  show "tile_mask (result_builtin ?s) ! r ! q \<longleftrightarrow> contributions ts b r q \<noteq> []"
    using result_cell(1)[OF dims] a by (simp add: mean_acc_def contributions_def)
  show "tile_bands (result_builtin ?s) ! b ! r ! q
           = sum_list (contributions ts b r q) / real (length (contributions ts b r q))"
    if "contributions ts b r q \<noteq> []"
  proof -
    have "tile_bands (result_builtin ?s) ! b ! r ! q = band_value Mean (mean_acc ts nb r q) b"
      using result_cell(2)[OF dims, of b] fields assms(3) a by simp
    also have "\<dots> = sum_list (contributions ts b r q) / real (length (contributions ts b r q))"
      using that assms(3)
      by (simp add: band_value_def mean_acc_def contributions_def Let_def)
    finally show ?thesis .
  qed
qed

lemma scenario_tiles: "tiles_of scenario_fetch [''A'', ''B'', ''C''] = [tile10, tile20, tile_none]"
  by (simp add: scenario_fetch_def)

lemma scenario_used:
  "filter (\<lambda>a. is_fetched (scenario_fetch a)) [''A'', ''B'', ''C''] = [''A'', ''B'', ''C'']"
  by (simp add: scenario_fetch_def)

lemma scenario_mean:
  "result_builtin (foldl feed_builtin (new_builtin Mean 1 4 4) [tile10, tile20, tile_none])
     = \<lparr>tile_bands = [replicate 4 (replicate 4 15)], tile_mask = replicate 4 (replicate 4 True)\<rparr>"
  by (simp add: result_builtin_def feed_builtin_def new_builtin_def tile10_def tile20_def
      tile_none_def step_def pixel_def band_value_def eval_nat_numeral upt_rec)

lemma scenario_composite:
  assumes "1 \<le> mc"
  shows "composite [''A'', ''B'', ''C''] scenario_fetch (builtin_selector Mean 1 4 4) mc =
             Inr \<lparr>mosaic_res = \<lparr>tile_bands = [replicate 4 (replicate 4 15)],
                                 tile_mask = replicate 4 (replicate 4 True)\<rparr>,
                  assets_used = [''A'', ''B'', ''C'']\<rparr>"
proof -
  let ?sel = "builtin_selector Mean 1 4 4"
  have nd: "never_done ?sel" by (rule never_done_builtin) simp
  have mc: "0 < mc" using assms by simp
  have ft: "feed_tiles ?sel (sel_init ?sel) (tiles_of scenario_fetch [''A'', ''B'', ''C'']) =
      Inr (foldl feed_builtin (new_builtin Mean 1 4 4) [tile10, tile20, tile_none])"
    unfolding scenario_tiles feed_tiles_builtin by (simp add: builtin_selector_def)
  have res: "sel_result ?sel = result_builtin" by (simp add: builtin_selector_def)
  have "composite [''A'', ''B'', ''C''] scenario_fetch ?sel mc =
      Inr \<lparr>mosaic_res = result_builtin
               (foldl feed_builtin (new_builtin Mean 1 4 4) [tile10, tile20, tile_none]),
            assets_used = [''A'', ''B'', ''C'']\<rparr>"
    unfolding composite_never_done[OF nd mc] ft scenario_used res by simp
  then show ?thesis by (simp only: scenario_mean)
qed

subsection \<open>The example tiles\<close>

lemma ex_shapes:
  "tile_shape 2 1 1 tA" "tile_shape 2 1 1 tB" "tile_shape 2 1 1 tC" "tile_shape 2 1 1 tD"
  "pixel_mask tA" "pixel_mask tB" "pixel_mask tC" "pixel_mask tD"
  by (simp_all add: tile_shape_def dims3_def pixel_mask_def tA_def tB_def tC_def tD_def)

lemma ex_first_highest: "first_highest [tA, tB, tC, tD] 0 0 1"
  by (simp add: first_highest_def valid_at_def decision_def tA_def tB_def tC_def tD_def upt_rec)

lemma ex_numbers: "\<forall>t\<in>set [tA, tB, tC, tD]. valid_at t 0 0 \<longrightarrow> decision t 0 0 \<noteq> NaN"
  by (simp add: decision_def tA_def tB_def tC_def tD_def)

lemmas ex_eval = feed_def new_CustomFourthBandH_def data_def tA_def tB_def tC_def tD_def
  shape_def pidex_def np_where_def map3_def Let_def

lemma ex_feeds:
  "feed new_CustomFourthBandH tD = Inr \<lparr>mosaic = Some tD\<rparr>"
  "feed new_CustomFourthBandH tA = Inr \<lparr>mosaic = Some tA\<rparr>"
  "feed new_CustomFourthBandH tB = Inr \<lparr>mosaic = Some tB\<rparr>"
  "feed \<lparr>mosaic = Some tD\<rparr> tA = Inr \<lparr>mosaic = Some tA\<rparr>"
  "feed \<lparr>mosaic = Some tD\<rparr> tB = Inr \<lparr>mosaic = Some tB\<rparr>"
  "feed \<lparr>mosaic = Some tA\<rparr> tB = Inr \<lparr>mosaic = Some tB\<rparr>"
  "feed \<lparr>mosaic = Some tA\<rparr> tD = Inr \<lparr>mosaic = Some tA\<rparr>"
  "feed \<lparr>mosaic = Some tB\<rparr> tC = Inr \<lparr>mosaic = Some tB\<rparr>"
  "feed \<lparr>mosaic = Some tB\<rparr> tD = Inr \<lparr>mosaic = Some tB\<rparr>"
  by (simp_all add: ex_eval)

section \<open>The claims\<close>

text \<open>
  C1, as amended. Highest rule of \<^verbatim>\<open>CustomFourthBandH\<close>: for tiles of one shape whose mask
  is the same in every band, and a pixel where the decision value (the last band) of
  every tile valid there is a number, not NaN: after all feeds the mosaic is valid at
  the pixel and holds there, in every band, the pixel of the tile that is valid there
  with the highest decision value, the earliest fed of them when several tie. Feeding a
  further tile with such a mask changes the data of that valid pixel only when the tile
  is valid there and its decision value is strictly greater than that of the mosaic.
\<close>

theorem highest_first_fed:
  assumes "0 < nb" and "r < h" and "q < w"
    and "\<forall>t\<in>set ts. tile_shape nb h w t \<and> pixel_mask t"
    and "\<forall>t\<in>set ts. valid_at t r q \<longrightarrow> decision t r q \<noteq> NaN"
    and "first_highest ts r q k"
    and "tile_shape nb h w t" and "pixel_mask t"
  shows "\<exists>m. feed_all new_CustomFourthBandH ts = Inr \<lparr>mosaic = Some m\<rparr>
           \<and> valid_at m r q
           \<and> (\<forall>b<nb. data_arr m ! b ! r ! q = data_arr (ts ! k) ! b ! r ! q)
           \<and> (\<exists>m'. feed \<lparr>mosaic = Some m\<rparr> t = Inr \<lparr>mosaic = Some m'\<rparr>
                 \<and> ((\<exists>b<nb. data_arr m' ! b ! r ! q \<noteq> data_arr m ! b ! r ! q) \<longrightarrow>
                       valid_at t r q \<and> fgt (decision t r q) (decision m r q)))"
proof -
  from assms(6) have k: "k < length ts" "valid_at (ts ! k) r q"
    by (simp_all add: first_highest_iff)
  then have "ts \<noteq> []" by auto
  from highest_invariant[OF assms(1-3) this assms(4,5)]
  obtain m where m: "feed_all new_CustomFourthBandH ts = Inr \<lparr>mosaic = Some m\<rparr>"
    "tile_shape nb h w m" "pixel_mask m" "pixel_inv ts m nb r q" by blast
  from m(4) k obtain k' where k': "first_highest ts r q k'" "valid_at m r q"
    "\<forall>b<nb. data_arr m ! b ! r ! q = data_arr (ts ! k') ! b ! r ! q"
    unfolding pixel_inv_def by blast
  have same: "k' = k" by (rule first_highest_unique[OF k'(1) assms(6)])
  have fd: "feed \<lparr>mosaic = Some m\<rparr> t = Inr \<lparr>mosaic = Some (merged t m)\<rparr>"
    using feed_Some[OF assms(7) m(2) assms(1), of "\<lparr>mosaic = Some m\<rparr>"] by simp
  have "valid_at t r q \<and> fgt (decision t r q) (decision m r q)"
    if "\<exists>b<nb. data_arr (merged t m) ! b ! r ! q \<noteq> data_arr m ! b ! r ! q"
  proof -
    from that obtain b where b: "b < nb"
      "data_arr (merged t m) ! b ! r ! q \<noteq> data_arr m ! b ! r ! q" by blast
    from data_merged_pixel[OF assms(7) m(2) assms(8) m(3) b(1) assms(2,3)] b(2) k'(2)
    show ?thesis by (auto split: if_splits)
  qed
  then show ?thesis using m(1) k'(2,3) same fd by blast
qed

theorem highest_first_fed_witness:
  "first_highest [tA, tB, tC, tD] 0 0 1
   \<and> (\<exists>m. feed_all new_CustomFourthBandH [tA, tB, tC, tD] = Inr \<lparr>mosaic = Some m\<rparr>
          \<and> valid_at m 0 0 \<and> data_arr m ! 0 ! 0 ! 0 = Num 2 \<and> data_arr m ! 1 ! 0 ! 0 = Num 7
          \<and> feed \<lparr>mosaic = Some m\<rparr> tC = Inr \<lparr>mosaic = Some m\<rparr>)"
proof -
  have sh: "\<forall>t\<in>set [tA, tB, tC, tD]. tile_shape 2 1 1 t \<and> pixel_mask t"
    using ex_shapes by simp
  from highest_first_fed[of 2 0 1 0 1, OF _ _ _ sh ex_numbers ex_first_highest
      ex_shapes(3) ex_shapes(7)]
  obtain m where m: "feed_all new_CustomFourthBandH [tA, tB, tC, tD] = Inr \<lparr>mosaic = Some m\<rparr>"
    "valid_at m 0 0" "\<forall>b<2. data_arr m ! b ! 0 ! 0 = data_arr ([tA, tB, tC, tD] ! 1) ! b ! 0 ! 0"
    by auto
  from m(3) have d: "data_arr m ! 0 ! 0 ! 0 = Num 2" "data_arr m ! 1 ! 0 ! 0 = Num 7"
    by (simp_all add: tB_def)
  have "feed_all new_CustomFourthBandH [tA, tB, tC, tD] = Inr \<lparr>mosaic = Some tB\<rparr>"
    by (simp add: ex_feeds)
  with m(1) have "m = tB" by simp
  then have "feed \<lparr>mosaic = Some m\<rparr> tC = Inr \<lparr>mosaic = Some m\<rparr>" by (simp add: ex_feeds)
  with m(1,2) d ex_first_highest show ?thesis by blast
qed

text \<open>
  The claim C1 as stated fails in two ways. A valid pixel whose decision value is NaN
  is never replaced, because \<^verbatim>\<open>>\<close> is false against NaN: after \<open>tN\<close>, \<open>tA\<close> and \<open>tB\<close>, all
  valid at the pixel with decision values NaN, 5 and 7, the mosaic holds the pixel of
  \<open>tN\<close>. And with a mask that differs between the bands the bands are replaced one by
  one: after \<open>tA\<close> (valid, decision value 5) and \<open>tP\<close> (decision value 9, first band
  masked) the mosaic is valid in both bands and holds the first band of \<open>tA\<close> with the
  decision band of \<open>tP\<close>, the pixel of neither tile.
\<close>

theorem highest_rule_counterexample:
  "feed_all new_CustomFourthBandH [tN, tA, tB] = Inr \<lparr>mosaic = Some tN\<rparr>
   \<and> tile_shape 2 1 1 tN \<and> tile_shape 2 1 1 tA \<and> tile_shape 2 1 1 tB
   \<and> pixel_mask tN \<and> pixel_mask tA \<and> pixel_mask tB
   \<and> valid_at tN 0 0 \<and> valid_at tA 0 0 \<and> valid_at tB 0 0
   \<and> decision tN 0 0 = NaN \<and> decision tA 0 0 = Num 5 \<and> decision tB 0 0 = Num 7
   \<and> data_arr tN \<noteq> data_arr tB
   \<and> feed_all new_CustomFourthBandH [tA, tP] =
        Inr \<lparr>mosaic = Some \<lparr>data_arr = [[[Num 1]], [[Num 9]]],
                               mask_arr = [[[False]], [[False]]]\<rparr>\<rparr>
   \<and> tile_shape 2 1 1 tP
   \<and> data_arr tA = [[[Num 1]], [[Num 5]]] \<and> data_arr tP = [[[Num 6]], [[Num 9]]]"
  by (simp add: feed_def new_CustomFourthBandH_def shape_def pidex_def np_where_def map3_def
      Let_def tile_shape_def dims3_def pixel_mask_def valid_at_def decision_def
      tN_def tA_def tB_def tP_def)

text \<open>
  C2. Coverage monotonicity. For \<^verbatim>\<open>CustomFourthBandH\<close>: after any sequence of fed tiles of
  one shape, feeding a further tile of that shape succeeds, the number of valid cells
  of the mosaic does not decrease, and every valid cell stays valid. For the built-in
  policies as specified: from any state of the selector, a feed does not decrease the
  number of valid pixels and every valid pixel stays valid.
\<close>

theorem coverage_monotone:
  assumes "0 < nb" and "\<forall>u\<in>set ts. tile_shape nb h w u" and "tile_shape nb h w t"
  shows "(\<exists>self self'. feed_all new_CustomFourthBandH ts = Inr self \<and> feed self t = Inr self'
            \<and> valid_cells self \<le> valid_cells self'
            \<and> (\<forall>b r q. cell_valid self b r q \<longrightarrow> cell_valid self' b r q))
         \<and> count_seen s \<le> count_seen (feed_builtin s u)
         \<and> (\<forall>r q. seen_at s r q \<longrightarrow> seen_at (feed_builtin s u) r q)"
proof -
  from feed_all_shape[OF assms(1,2) new_shape]
  obtain self where self: "feed_all new_CustomFourthBandH ts = Inr self" "selector_shape nb h w self"
    by blast
  from custom_coverage_step[OF assms(1,3) self(2)] self(1)
  have "\<exists>self self'. feed_all new_CustomFourthBandH ts = Inr self \<and> feed self t = Inr self'
            \<and> valid_cells self \<le> valid_cells self'
            \<and> (\<forall>b r q. cell_valid self b r q \<longrightarrow> cell_valid self' b r q)"
    by blast
  then show ?thesis using builtin_coverage_step[of s u] by blast
qed

theorem coverage_monotone_witness:
  "(\<exists>self self'. feed_all new_CustomFourthBandH [tD, tA] = Inr self \<and> feed self tB = Inr self'
       \<and> valid_cells self = 2 \<and> valid_cells self' = 2 \<and> cell_valid self 0 0 0
       \<and> cell_valid self' 0 0 0)
   \<and> count_seen (new_builtin First 1 1 1) = 0
   \<and> count_seen (feed_builtin (new_builtin First 1 1 1) full1) = 1"
proof -
  have sh: "\<forall>u\<in>set [tD, tA]. tile_shape 2 1 1 u" using ex_shapes by simp
  have run: "feed_all new_CustomFourthBandH [tD, tA] = Inr \<lparr>mosaic = Some tA\<rparr>"
    by (simp add: ex_feeds)
  have v: "valid_cells \<lparr>mosaic = Some tA\<rparr> = 2" "cell_valid \<lparr>mosaic = Some tA\<rparr> 0 0 0"
    by (simp_all add: valid_cells_def cell_valid_def count_valid_def tA_def)
  from coverage_monotone[of 2 "[tD, tA]" 1 1 tB "new_builtin First 1 1 1" full1, OF _ sh ex_shapes(2)]
  obtain self' where s': "feed \<lparr>mosaic = Some tA\<rparr> tB = Inr self'"
      "valid_cells \<lparr>mosaic = Some tA\<rparr> \<le> valid_cells self'"
      "cell_valid self' 0 0 0"
    and b: "count_seen (new_builtin First 1 1 1) \<le> count_seen (feed_builtin (new_builtin First 1 1 1) full1)"
    using run v by auto
  have "feed \<lparr>mosaic = Some tA\<rparr> tB = Inr \<lparr>mosaic = Some tB\<rparr>"
    by (rule ex_feeds)
  with s'(1) have "valid_cells self' = 2"
    by (auto simp: valid_cells_def count_valid_def tB_def)
  moreover have "count_seen (new_builtin First 1 1 1) = 0"
    "count_seen (feed_builtin (new_builtin First 1 1 1) full1) = 1"
    by (simp_all add: count_seen_def new_builtin_def feed_builtin_def step_def full1_def pixel_def)
  ultimately show ?thesis using run v s' by auto
qed

text \<open>
  C3, as amended. Reading \<^verbatim>\<open>data\<close> of a \<^verbatim>\<open>CustomFourthBandH\<close> that was never fed does not
  fail and returns \<^verbatim>\<open>None\<close>, no image; after at least one tile was fed (tiles of one
  shape) it returns an image. For a built-in policy as specified, the result after zero
  feeds has the mask of the grid with every pixel invalid, and the bands of the request
  (one band for Count).
\<close>

theorem zero_feed_result:
  assumes "0 < nb" and "ts \<noteq> []" and "\<forall>t\<in>set ts. tile_shape nb h w t"
  shows "data new_CustomFourthBandH = None
         \<and> (\<exists>self img. feed_all new_CustomFourthBandH ts = Inr self \<and> data self = Some img)
         \<and> tile_mask (result_builtin (new_builtin p nb' h' w')) = replicate h' (replicate w' False)
         \<and> length (tile_bands (result_builtin (new_builtin p nb' h' w')))
             = (if p = Count then 1 else nb')"
proof -
  from feed_all_shape[OF assms(1,3) new_shape] assms(2)
  obtain self where "feed_all new_CustomFourthBandH ts = Inr self" "mosaic self \<noteq> None"
    by blast
  then have "\<exists>self img. feed_all new_CustomFourthBandH ts = Inr self \<and> data self = Some img"
    by (auto simp: data_def)
  then show ?thesis
    by (simp add: data_def new_CustomFourthBandH_def result_builtin_def new_builtin_def)
qed

theorem zero_feed_result_witness:
  "data (new_CustomFourthBandH :: int fval CustomFourthBandH) = None
   \<and> (\<exists>self. feed_all new_CustomFourthBandH [tD] = Inr self
         \<and> data self = Some \<lparr>data_arr = [[[Num 4]]], mask_arr = [[[True]]]\<rparr>)
   \<and> tile_mask (result_builtin (new_builtin First 3 2 2)) = [[False, False], [False, False]]
   \<and> length (tile_bands (result_builtin (new_builtin First 3 2 2))) = 3"
proof -
  have sh: "\<forall>t\<in>set [tD]. tile_shape 2 1 1 t" using ex_shapes by simp
  have "feed_all new_CustomFourthBandH [tD] = Inr \<lparr>mosaic = Some tD\<rparr>"
    by (simp add: ex_feeds)
  moreover have "data \<lparr>mosaic = Some tD\<rparr> = Some \<lparr>data_arr = [[[Num 4]]], mask_arr = [[[True]]]\<rparr>"
    by (simp add: data_def tD_def)
  ultimately show ?thesis
    using zero_feed_result[of 2 "[tD]" 1 1 First 3 2 2, OF _ _ sh]
    by (simp add: eval_nat_numeral)
qed

text \<open>
  The claim C3 as stated fails: \<^verbatim>\<open>data\<close> of a fresh \<^verbatim>\<open>CustomFourthBandH\<close> is not an image
  with an all-invalid mask, it is \<^verbatim>\<open>None\<close>.
\<close>

theorem zero_feed_data_counterexample:
  "\<not> (\<exists>img. data (new_CustomFourthBandH :: int fval CustomFourthBandH) = Some img
          \<and> all_masked (mask_arr img))"
  by (simp add: data_def new_CustomFourthBandH_def)

text \<open>
  C4, as amended. A tile without a valid cell, of the shape of the request, is fed to
  \<^verbatim>\<open>CustomFourthBandH\<close> without an exception. When the selector holds a mosaic, its mask
  and its data at the valid cells are unchanged. When the tile is the first one fed, it
  becomes the mosaic, which then has no valid cell (\<^verbatim>\<open>data\<close> is then an image whose mask
  is all-invalid), and the next tile of that shape replaces it entirely: the selector
  continues as if the tile had not been fed. For the
  built-in policies as specified, feeding a tile without a valid pixel leaves the state
  of the selector unchanged, also as the first tile.
\<close>

theorem all_invalid_tile_no_contribution:
  assumes "0 < nb" and "tile_shape nb h w t" and "all_masked (mask_arr t)"
    and "tile_shape nb h w mos" and "tile_shape nb h w u"
    and "grid_shape h' w' (acc s)" and "grid_shape h' w' (tile_mask it)" and "all_invalid it"
  shows "(\<exists>mos'. feed \<lparr>mosaic = Some mos\<rparr> t = Inr \<lparr>mosaic = Some mos'\<rparr>
            \<and> mask_arr mos' = mask_arr mos
            \<and> (\<forall>b<nb. \<forall>r<h. \<forall>q<w. \<not> mask_arr mos ! b ! r ! q \<longrightarrow>
                  data_arr mos' ! b ! r ! q = data_arr mos ! b ! r ! q))
         \<and> feed new_CustomFourthBandH t = Inr \<lparr>mosaic = Some t\<rparr>
         \<and> valid_cells \<lparr>mosaic = Some t\<rparr> = 0
         \<and> (\<exists>img. data \<lparr>mosaic = Some t\<rparr> = Some img \<and> all_masked (mask_arr img))
         \<and> feed_all new_CustomFourthBandH (t # u # us) = feed_all new_CustomFourthBandH (u # us)
         \<and> feed_builtin s it = s"
proof -
  have "feed \<lparr>mosaic = Some mos\<rparr> t = Inr \<lparr>mosaic = Some (merged t mos)\<rparr>"
    using feed_Some[OF assms(2,4,1), of "\<lparr>mosaic = Some mos\<rparr>"] by simp
  then have one: "\<exists>mos'. feed \<lparr>mosaic = Some mos\<rparr> t = Inr \<lparr>mosaic = Some mos'\<rparr>
            \<and> mask_arr mos' = mask_arr mos
            \<and> (\<forall>b<nb. \<forall>r<h. \<forall>q<w. \<not> mask_arr mos ! b ! r ! q \<longrightarrow>
                  data_arr mos' ! b ! r ! q = data_arr mos ! b ! r ! q)"
    using masked_tile_keeps_mosaic[OF assms(1,2,3,4)] by blast
  have two: "feed new_CustomFourthBandH t = Inr \<lparr>mosaic = Some t\<rparr>"
    by (simp add: feed_None new_CustomFourthBandH_def)
  have three: "valid_cells \<lparr>mosaic = Some t\<rparr> = 0"
    using count_valid_masked[OF assms(3)] by (simp add: valid_cells_def)
  have "feed \<lparr>mosaic = Some t\<rparr> u = Inr \<lparr>mosaic = Some u\<rparr>"
    using feed_Some[OF assms(5,2,1), of "\<lparr>mosaic = Some t\<rparr>"]
      merged_over_masked[OF assms(1,2,3,5)] by simp
  moreover have "feed new_CustomFourthBandH u = Inr \<lparr>mosaic = Some u\<rparr>"
    by (simp add: feed_None new_CustomFourthBandH_def)
  ultimately have four:
    "feed_all new_CustomFourthBandH (t # u # us) = feed_all new_CustomFourthBandH (u # us)"
    using two by simp
  have five: "feed_builtin s it = s" by (rule feed_builtin_invalid[OF assms(6,7,8)])
  have six: "\<exists>img. data \<lparr>mosaic = Some t\<rparr> = Some img \<and> all_masked (mask_arr img)"
    using all_masked_butlast[OF assms(3)] by (simp add: data_def)
  from one two three four five six show ?thesis by blast
qed

theorem all_invalid_tile_no_contribution_witness:
  "all_masked (mask_arr tD) \<and> all_invalid none1
   \<and> feed \<lparr>mosaic = Some tA\<rparr> tD = Inr \<lparr>mosaic = Some tA\<rparr>
   \<and> feed new_CustomFourthBandH tD = Inr \<lparr>mosaic = Some tD\<rparr>
   \<and> valid_cells \<lparr>mosaic = Some tD\<rparr> = 0
   \<and> data \<lparr>mosaic = Some tD\<rparr> = Some \<lparr>data_arr = [[[Num 4]]], mask_arr = [[[True]]]\<rparr>
   \<and> feed_all new_CustomFourthBandH [tD, tB, tC] = feed_all new_CustomFourthBandH [tB, tC]
   \<and> feed_builtin (new_builtin Mean 1 1 1) none1 = new_builtin Mean 1 1 1"
proof -
  have m: "all_masked (mask_arr tD)" by (simp add: all_masked_def tD_def)
  have g: "grid_shape 1 1 (acc (new_builtin Mean 1 1 1))" "grid_shape 1 1 (tile_mask none1)"
    "all_invalid none1"
    by (simp_all add: grid_shape_def new_builtin_def none1_def all_invalid_def)
  have "feed \<lparr>mosaic = Some tA\<rparr> tD = Inr \<lparr>mosaic = Some tA\<rparr>"
    by (rule ex_feeds)
  with all_invalid_tile_no_contribution[of 2 1 1 tD tA tB 1 1 "new_builtin Mean 1 1 1" none1 "[tC]",
      OF _ ex_shapes(4) m ex_shapes(1) ex_shapes(2) g] m g(3)
  show ?thesis by (simp add: ex_feeds) (simp add: data_def tD_def)
qed

text \<open>
  The claim C4 as stated fails for the first tile: before the feed \<^verbatim>\<open>data\<close> is \<^verbatim>\<open>None\<close>,
  after feeding the masked tile \<open>tD\<close> it is an image with an all-invalid mask.
\<close>

theorem first_all_invalid_tile_counterexample:
  "all_masked (mask_arr tD)
   \<and> data (new_CustomFourthBandH :: int fval CustomFourthBandH) = None
   \<and> (\<exists>self'. feed new_CustomFourthBandH tD = Inr self'
         \<and> data self' = Some \<lparr>data_arr = [[[Num 4]]], mask_arr = [[[True]]]\<rparr>)"
  by (simp add: all_masked_def tD_def feed_def data_def new_CustomFourthBandH_def)

text \<open>
  C5. The assets used by \<^verbatim>\<open>composite\<close>, for \<open>max_concurrency \<ge> 1\<close>. When the operation
  returns, the assets used are exactly the assets whose fetch gave a tile among the
  first \<open>n\<close> assets of the sequence, in the order of the sequence; the mosaic is the
  result of the selector fed with exactly their tiles in that order; and \<open>n\<close> is the
  whole sequence unless the selector reported done: a failed fetch or an asset outside
  the bounds neither ends the operation nor appears among the assets used. The
  operation raises only the exception that the selector raises when it is fed, in the
  order of the sequence, the tiles that were fetched for the first assets.
\<close>

theorem assets_used_exact:
  assumes "1 \<le> mc"
  shows "case composite assets fetch_tile sel mc of
     Inl e \<Rightarrow> \<exists>n. feed_tiles sel (sel_init sel) (tiles_of fetch_tile (take n assets)) = Inl e
   | Inr res \<Rightarrow>
       \<exists>n s. assets_used res = filter (\<lambda>a. is_fetched (fetch_tile a)) (take n assets)
         \<and> list_all (\<lambda>a. is_fetched (fetch_tile a)) (assets_used res)
         \<and> feed_tiles sel (sel_init sel) (tiles_of fetch_tile (assets_used res)) = Inr s
         \<and> mosaic_res res = sel_result sel s
         \<and> (n < length assets \<longrightarrow> sel_is_done sel s)
         \<and> (never_done sel \<longrightarrow>
               assets_used res = filter (\<lambda>a. is_fetched (fetch_tile a)) assets)"
proof (cases "composite assets fetch_tile sel mc")
  case (Inl e)
  from composite_Inl[OF Inl] show ?thesis using Inl by simp
next
  case (Inr res)
  from assms have mc: "0 < mc" by simp
  from composite_Inr[OF Inr mc] obtain n s where
    n: "assets_used res = filter (\<lambda>a. is_fetched (fetch_tile a)) (take n assets)"
    and s: "feed_tiles sel (sel_init sel) (tiles_of fetch_tile (assets_used res)) = Inr s"
       "mosaic_res res = sel_result sel s"
    and stop: "n < length assets \<longrightarrow> sel_is_done sel s"
    by blast
  have "list_all (\<lambda>a. is_fetched (fetch_tile a)) (assets_used res)"
    unfolding n by (simp add: list_all_iff)
  moreover have "assets_used res = filter (\<lambda>a. is_fetched (fetch_tile a)) assets"
    if "never_done sel"
    using that mc Inr composite_never_done[of sel mc assets fetch_tile]
    by (auto split: sum.splits)
  ultimately show ?thesis using Inr n s stop by auto
qed

theorem assets_used_exact_witness:
  "composite [1, 2, 3, 4, 5] fetch5 custom_selector 2 =
     Inr \<lparr>mosaic_res = Some \<lparr>data_arr = [[[Num 2]]], mask_arr = [[[False]]]\<rparr>, assets_used = [1, 5]\<rparr>
   \<and> filter (\<lambda>a. is_fetched (fetch5 a)) [1, 2, 3, 4, 5] = [1, 5]
   \<and> never_done (custom_selector :: (int fval CustomFourthBandH, int fval marray, int fval marray option) selector)"
proof -
  have f: "filter (\<lambda>a. is_fetched (fetch5 a)) [1, 2, 3, 4, 5] = [1, 5]"
    by (simp add: fetch5_def)
  have t: "tiles_of fetch5 [1, 2, 3, 4, 5] = [tA, tB]" by (simp add: fetch5_def)
  have c: "composite [1, 2, 3, 4, 5] fetch5 custom_selector 2 =
     Inr \<lparr>mosaic_res = Some \<lparr>data_arr = [[[Num 2]]], mask_arr = [[[False]]]\<rparr>, assets_used = [1, 5]\<rparr>"
    unfolding composite_never_done[OF never_done_custom zero_less_numeral] t f
    by (simp add: custom_selector_def ex_feeds) (simp add: data_def tB_def)
  have "(1::nat) \<le> 2" by simp
  from assets_used_exact[OF this, where assets = "[1, 2, 3, 4, 5]" and fetch_tile = fetch5
      and sel = custom_selector] c f never_done_custom
  show ?thesis by simp
qed

text \<open>
  C8, as amended. After feeding any tiles of \<open>nb\<close> bands to the Mean policy, a pixel of
  the result is valid exactly when some tile was valid there, and then its value in
  each band is the arithmetic mean of the values of the tiles valid there. In the
  scenario of the specification, for every \<open>max_concurrency \<ge> 1\<close>, every pixel of the
  mosaic is 15, the mask is all true, and the assets used are A, B and C: the fetch of
  C succeeded, so its tile is fed (without effect) and C is recorded.
\<close>

theorem mean_correctness:
  assumes "r < h" and "q < w" and "b < nb" and "\<forall>t\<in>set ts. length (tile_bands t) = nb"
    and "1 \<le> mc"
  shows "(tile_mask (result_builtin (foldl feed_builtin (new_builtin Mean nb h w) ts)) ! r ! q
            \<longleftrightarrow> contributions ts b r q \<noteq> [])
         \<and> (contributions ts b r q \<noteq> [] \<longrightarrow>
              tile_bands (result_builtin (foldl feed_builtin (new_builtin Mean nb h w) ts)) ! b ! r ! q
                = sum_list (contributions ts b r q) / real (length (contributions ts b r q)))
         \<and> composite [''A'', ''B'', ''C''] scenario_fetch (builtin_selector Mean 1 4 4) mc =
             Inr \<lparr>mosaic_res = \<lparr>tile_bands = [replicate 4 (replicate 4 15)],
                                 tile_mask = replicate 4 (replicate 4 True)\<rparr>,
                  assets_used = [''A'', ''B'', ''C'']\<rparr>"
  using mean_result[OF assms(1-4)] scenario_composite[OF assms(5)] by blast

theorem mean_correctness_witness:
  "contributions [tile10, tile20, tile_none] 0 0 0 = [10, 20]
   \<and> tile_mask (result_builtin (foldl feed_builtin (new_builtin Mean 1 4 4)
        [tile10, tile20, tile_none])) ! 0 ! 0
   \<and> tile_bands (result_builtin (foldl feed_builtin (new_builtin Mean 1 4 4)
        [tile10, tile20, tile_none])) ! 0 ! 0 ! 0 = 15
   \<and> composite [''A'', ''B'', ''C''] scenario_fetch (builtin_selector Mean 1 4 4) 2 =
        Inr \<lparr>mosaic_res = \<lparr>tile_bands = [replicate 4 (replicate 4 15)],
                            tile_mask = replicate 4 (replicate 4 True)\<rparr>,
             assets_used = [''A'', ''B'', ''C'']\<rparr>"
proof -
  have c: "contributions [tile10, tile20, tile_none] 0 0 0 = [10, 20]"
    by (simp add: contributions_def tile10_def tile20_def tile_none_def)
  have b: "\<forall>t\<in>set [tile10, tile20, tile_none]. length (tile_bands t) = 1"
    by (simp add: tile10_def tile20_def tile_none_def)
  have "(0::nat) < 4" "(0::nat) < 1" "(1::nat) \<le> 2" by simp_all
  from mean_correctness[OF this(1) this(1) this(2) b this(3)] c
  show ?thesis by simp
qed

text \<open>
  The claim C8 as stated fails for the assets used of the scenario: they are A, B and C,
  not A and B.
\<close>

theorem mean_scenario_counterexample:
  "\<exists>res. composite [''A'', ''B'', ''C''] scenario_fetch (builtin_selector Mean 1 4 4) 1 = Inr res
     \<and> assets_used res = [''A'', ''B'', ''C''] \<and> assets_used res \<noteq> [''A'', ''B'']"
  unfolding scenario_composite[OF order_refl] by simp

text \<open>
  C9. The \<^verbatim>\<open>data\<close> property drops the decision band: after feeding a non-empty sequence
  of tiles of \<open>n \<ge> 2\<close> bands, the mosaic has \<open>n\<close> bands and \<^verbatim>\<open>data\<close> returns its first
  \<open>n - 1\<close> bands, data and mask.
\<close>

theorem data_drops_decision_band:
  assumes "2 \<le> n" "ts \<noteq> []" "\<forall>t\<in>set ts. tile_shape n h w t"
  shows "\<exists>self mos d. feed_all new_CustomFourthBandH ts = Inr self \<and> mosaic self = Some mos
           \<and> length (data_arr mos) = n \<and> data self = Some d
           \<and> length (data_arr d) = n - 1 \<and> length (mask_arr d) = n - 1
           \<and> data_arr d = take (n - 1) (data_arr mos) \<and> mask_arr d = take (n - 1) (mask_arr mos)"
proof -
  from assms have "0 < n" by simp
  from feed_all_shape[OF this assms(3) new_shape] assms(2)
  obtain self mos where s: "feed_all new_CustomFourthBandH ts = Inr self"
    "mosaic self = Some mos" "tile_shape n h w mos"
    by (auto simp: selector_shape_def split: option.splits)
  then have "length (data_arr mos) = n" "length (mask_arr mos) = n"
    by (simp_all add: tile_shape_def dims3_iff)
  then show ?thesis using s by (simp add: data_def butlast_conv_take)
qed

theorem data_drops_decision_band_witness:
  "(2::nat) \<le> 2 \<and> [tA, tB] \<noteq> []
   \<and> (\<exists>self mos d. feed_all new_CustomFourthBandH [tA, tB] = Inr self \<and> mosaic self = Some mos
          \<and> length (data_arr mos) = 2 \<and> data self = Some d
          \<and> length (data_arr d) = 1 \<and> length (mask_arr d) = 1
          \<and> data_arr d = take 1 (data_arr mos) \<and> mask_arr d = take 1 (mask_arr mos))"
proof -
  have sh: "\<forall>t\<in>set [tA, tB]. tile_shape 2 1 1 t" using ex_shapes by simp
  from data_drops_decision_band[of 2 "[tA, tB]" 1 1, OF _ _ sh] show ?thesis by simp
qed

text \<open>
  C10. In both demo servers, when reading the tile raises \<^verbatim>\<open>TileOutsideBounds\<close> the
  handler raises \<^verbatim>\<open>HTTPError(404)\<close>, the response has status 404 and nothing was
  written; and whenever the handler wrote PNG bytes, the read had succeeded and the
  bytes are what the render step returned for the image read.
\<close>

theorem outside_bounds_gives_404:
  "(read_tms tms x y z = Inl TileOutsideBounds \<longrightarrow>
      get_tile_tms read_tms render tms z x y = Inl (HTTPError 404)
      \<and> get_tms read_tms render tms z x y = \<lparr>status = 404, headers = tile_headers, written = None\<rparr>)
   \<and> (written (get_tms read_tms render tms z x y) = Some png \<longrightarrow>
        (\<exists>img. read_tms tms x y z = Inr img \<and> render img = Inr png))
   \<and> (read_eu x y z = Inl TileOutsideBounds \<longrightarrow>
        get_tile_europa read_eu post_process render z x y = Inl (HTTPError 404)
        \<and> get_europa read_eu post_process render z x y =
            \<lparr>status = 404, headers = tile_headers, written = None\<rparr>)
   \<and> (written (get_europa read_eu post_process render z x y) = Some png \<longrightarrow>
        (\<exists>img processed. read_eu x y z = Inr img \<and> post_process img = Inr processed
           \<and> render processed = Inr png))"
  by (auto simp: get_tms_def get_europa_def respond_def get_tile_tms_def get_tile_europa_def
      split: sum.splits exn.splits)

theorem outside_bounds_gives_404_witness:
  "demo_read ''WebMercatorQuad'' 3 0 1 = Inl TileOutsideBounds
   \<and> get_tms demo_read demo_render ''WebMercatorQuad'' 1 3 0
       = \<lparr>status = 404, headers = tile_headers, written = None\<rparr>
   \<and> written (get_tms demo_read demo_render ''WebMercatorQuad'' 7 0 0) = Some [7]
   \<and> demo_read ''WebMercatorQuad'' 0 0 7 = Inr 7 \<and> demo_render 7 = Inr [7]
   \<and> get_europa demo_read_eu demo_post demo_render 1 3 0
       = \<lparr>status = 404, headers = tile_headers, written = None\<rparr>
   \<and> written (get_europa demo_read_eu demo_post demo_render 7 0 0) = Some [8]"
proof -
  have w: "written (get_tms demo_read demo_render ''WebMercatorQuad'' 7 0 0) = Some [7]"
    "written (get_europa demo_read_eu demo_post demo_render 7 0 0) = Some [8]"
    by (simp_all add: get_tms_def get_tile_tms_def get_europa_def get_tile_europa_def respond_def
        demo_read_def demo_read_eu_def demo_render_def demo_post_def)
  have r: "demo_read ''WebMercatorQuad'' 3 0 1 = Inl TileOutsideBounds"
    "demo_read_eu 3 0 1 = Inl TileOutsideBounds"
    by (simp_all add: demo_read_def demo_read_eu_def)
  from outside_bounds_gives_404[of demo_read "''WebMercatorQuad''" 3 0 1 demo_render "[7]"
      demo_read_eu demo_post] r w
  show ?thesis by (simp add: demo_read_def demo_render_def)
qed

end
